theory Spec2Isabelle
  imports Complex_Main
begin

section \<open>JavaScript strings\<close>

text \<open>
  A JavaScript string is a sequence of code units. The model has the strings whose
  code units are below 256, as lists of 8-bit characters: a \<open>char\<close> is the code unit
  (ASCII and the Latin-1 supplement). The operations below are the ones the
  extension's sources call.
\<close>

definition startsWith :: "string \<Rightarrow> string \<Rightarrow> bool" where
  \<comment> \<open>\<open>s.startsWith(p)\<close>\<close>
  "startsWith s p = (take (length p) s = p)"

fun includesStr :: "string \<Rightarrow> string \<Rightarrow> bool" where
  \<comment> \<open>\<open>s.includes(sub)\<close>: \<open>sub\<close> occurs somewhere in \<open>s\<close>\<close>
  "includesStr [] sub = (sub = [])"
| "includesStr (c # cs) sub = (startsWith (c # cs) sub \<or> includesStr cs sub)"

definition upperLetters :: string where
  \<comment> \<open>the capital letters: \<open>A\<close> to \<open>Z\<close>, and U+00C0 to U+00DE without the sign U+00D7\<close>
  "upperLetters =
     ''ABCDEFGHIJKLMNOPQRSTUVWXYZ'' @
     [CHR 0xC0, CHR 0xC1, CHR 0xC2, CHR 0xC3, CHR 0xC4, CHR 0xC5, CHR 0xC6, CHR 0xC7,
      CHR 0xC8, CHR 0xC9, CHR 0xCA, CHR 0xCB, CHR 0xCC, CHR 0xCD, CHR 0xCE, CHR 0xCF,
      CHR 0xD0, CHR 0xD1, CHR 0xD2, CHR 0xD3, CHR 0xD4, CHR 0xD5, CHR 0xD6,
      CHR 0xD8, CHR 0xD9, CHR 0xDA, CHR 0xDB, CHR 0xDC, CHR 0xDD, CHR 0xDE]"

definition lowerLetters :: string where
  \<comment> \<open>their small letters, in the same order\<close>
  "lowerLetters =
     ''abcdefghijklmnopqrstuvwxyz'' @
     [CHR 0xE0, CHR 0xE1, CHR 0xE2, CHR 0xE3, CHR 0xE4, CHR 0xE5, CHR 0xE6, CHR 0xE7,
      CHR 0xE8, CHR 0xE9, CHR 0xEA, CHR 0xEB, CHR 0xEC, CHR 0xED, CHR 0xEE, CHR 0xEF,
      CHR 0xF0, CHR 0xF1, CHR 0xF2, CHR 0xF3, CHR 0xF4, CHR 0xF5, CHR 0xF6,
      CHR 0xF8, CHR 0xF9, CHR 0xFA, CHR 0xFB, CHR 0xFC, CHR 0xFD, CHR 0xFE]"

definition lowerChar :: "char \<Rightarrow> char" where
  \<comment> \<open>a capital letter goes to its small letter, every other character stays\<close>
  "lowerChar c = (case map_of (zip upperLetters lowerLetters) c of None \<Rightarrow> c | Some l \<Rightarrow> l)"

definition toLowerCase :: "string \<Rightarrow> string" where
  "toLowerCase s = map lowerChar s"

definition isSpace :: "char \<Rightarrow> bool" where
  \<comment> \<open>the white space of \<open>trim()\<close> and of the regular expression class \<open>\s\<close>:
      space, tab, line feed, vertical tab, form feed, carriage return and the
      no-break space U+00A0\<close>
  "isSpace c =
     (c \<in> set [CHR '' '', CHR 0x09, CHR 0x0A, CHR 0x0B, CHR 0x0C, CHR 0x0D, CHR 0xA0])"

definition trim :: "string \<Rightarrow> string" where
  "trim s = rev (dropWhile isSpace (rev (dropWhile isSpace s)))"

fun splitOn :: "char \<Rightarrow> string \<Rightarrow> string list" where
  \<comment> \<open>\<open>s.split(c)\<close> for a one-character separator; never the empty list\<close>
  "splitOn c [] = [[]]"
| "splitOn c (x # xs) =
     (if x = c then [] # splitOn c xs
      else (case splitOn c xs of
              [] \<Rightarrow> [[x]]
            | p # ps \<Rightarrow> (x # p) # ps))"

fun splitSpaces :: "string \<Rightarrow> string list" where
  \<comment> \<open>\<open>s.split(/\s+/)\<close>: a maximal run of white space is one separator\<close>
  "splitSpaces [] = [[]]"
| "splitSpaces (x # xs) =
     (if isSpace x then
        (case xs of
           [] \<Rightarrow> [[], []]
         | y # ys \<Rightarrow> if isSpace y then splitSpaces xs else [] # splitSpaces xs)
      else (case splitSpaces xs of
              [] \<Rightarrow> [[x]]
            | p # ps \<Rightarrow> (x # p) # ps))"

definition digitChar :: "nat \<Rightarrow> char" where
  "digitChar d = ''0123456789'' ! (d mod 10)"

fun showNat :: "nat \<Rightarrow> string" where
  \<comment> \<open>the decimal numeral a template literal prints for a non-negative integer\<close>
  "showNat n = (if n < 10 then [digitChar n] else showNat (n div 10) @ [digitChar n])"

declare showNat.simps [simp del]

definition isDigit :: "char \<Rightarrow> bool" where
  "isDigit c = (c \<in> set ''0123456789'')"

definition digitVal :: "char \<Rightarrow> nat" where
  "digitVal c = length (takeWhile (\<lambda>d. d \<noteq> c) ''0123456789'')"

definition decimalValue :: "string \<Rightarrow> int" where
  \<comment> \<open>the integer a string of decimal digits writes\<close>
  "decimalValue ds = foldl (\<lambda>acc c. 10 * acc + int (digitVal c)) 0 ds"

definition lastIndexOf :: "string \<Rightarrow> char \<Rightarrow> int" where
  \<comment> \<open>\<open>s.lastIndexOf(c)\<close>, \<open>-1\<close> when \<open>c\<close> does not occur\<close>
  "lastIndexOf s c = int (length (dropWhile (\<lambda>x. x \<noteq> c) (rev s))) - 1"

definition substring :: "string \<Rightarrow> int \<Rightarrow> int \<Rightarrow> string" where
  \<comment> \<open>\<open>s.substring(a, b)\<close> for \<open>0 \<le> a \<le> b\<close>\<close>
  "substring s a b = take (nat b - nat a) (drop (nat a) s)"

definition substringFrom :: "string \<Rightarrow> int \<Rightarrow> string" where
  \<comment> \<open>\<open>s.substring(a)\<close>\<close>
  "substringFrom s a = drop (nat a) s"

section \<open>Configuration (\<open>shared/config.js\<close>)\<close>

definition retryAttempts :: nat where "retryAttempts = 3"
definition retryDelays :: "nat list" where "retryDelays = [2000, 4000, 8000]"
definition maxCarouselItems :: nat where "maxCarouselItems = 10"
definition minHeroSize :: rat where "minHeroSize = 200"
definition iconThreshold :: rat where "iconThreshold = 100"
definition excludeBySize :: bool where "excludeBySize = True"
definition prioritizeVideos :: bool where "prioritizeVideos = True"
definition excludeClassNames :: "string list" where
  "excludeClassNames =
     [''ad'', ''advertisement'', ''sponsor'', ''banner'', ''icon'', ''avatar'',
      ''thumbnail-small'', ''logo'']"

section \<open>JavaScript numbers\<close>

text \<open>
  A finite JavaScript number is a rational. A product or a difference of two numbers
  is the exact result rounded to the nearest number with a 53-bit significand, ties
  to the even significand; a decimal literal of the source is the rounding of the
  decimal it writes. Subnormal numbers are outside the model, and so is the overflow
  of a product or a difference. \<open>parseInt\<close> does overflow: there \<open>2 ^ 1024\<close> stands for
  \<open>Infinity\<close>, which is above every finite number and equal to itself, as the
  comparison function of a sort sees it.
\<close>

function log2floor :: "int \<Rightarrow> int" where
  "log2floor n = (if n < 2 then 0 else 1 + log2floor (n div 2))"
  by pat_completeness auto
termination
  by (relation "measure nat") auto

declare log2floor.simps [simp del]

definition pow2 :: "int \<Rightarrow> rat" where
  "pow2 e = (if 0 \<le> e then 2 ^ nat e else 1 / 2 ^ nat (- e))"

definition ilog2 :: "rat \<Rightarrow> int" where
  \<comment> \<open>for \<open>0 < x\<close>, the integer \<open>k\<close> with \<open>2 ^ k \<le> x < 2 ^ (k + 1)\<close>\<close>
  "ilog2 x =
     (if 1 \<le> x then log2floor \<lfloor>x\<rfloor>
      else let j = log2floor \<lfloor>1 / x\<rfloor>
           in if x * pow2 j = 1 then - j else - (j + 1))"

definition roundEven :: "rat \<Rightarrow> int" where
  "roundEven x =
     (let f = \<lfloor>x\<rfloor>; d = x - of_int f
      in if d < 1 / 2 then f
         else if 1 / 2 < d then f + 1
         else if even f then f else f + 1)"

definition round53 :: "rat \<Rightarrow> rat" where
  "round53 x =
     (if x = 0 then 0
      else let a = \<bar>x\<bar>; e = ilog2 a - 52
           in sgn x * of_int (roundEven (a / pow2 e)) * pow2 e)"

definition parseInt10 :: "string \<Rightarrow> rat" where
  \<comment> \<open>\<open>parseInt(ds, 10)\<close> on a string of decimal digits: the number nearest to the
      integer written, \<open>Infinity\<close> from \<open>2 ^ 1024\<close> on. (Beyond 20 significant digits
      the language allows an implementation to read the later digits as 0; the
      properties below that depend on the value read are stated for integers up to
      \<open>2 ^ 53\<close>, which have at most 16 digits.)\<close>
  "parseInt10 ds = min (round53 (of_int (decimalValue ds))) (2 ^ 1024)"

definition fmul :: "rat \<Rightarrow> rat \<Rightarrow> rat" where
  "fmul a b = round53 (a * b)"

definition fsub :: "rat \<Rightarrow> rat \<Rightarrow> rat" where
  "fsub a b = round53 (a - b)"

definition viewportBonusVisible :: rat where "viewportBonusVisible = round53 (15 / 10)"
definition viewportBonusPartial :: rat where "viewportBonusPartial = round53 (12 / 10)"
definition qualityBonusHD :: rat where "qualityBonusHD = round53 (13 / 10)"
definition qualityBonusSD :: rat where "qualityBonusSD = round53 (11 / 10)"

section \<open>Sorting\<close>

text \<open>
  \<open>xs.sort((a, b) => key(b) - key(a))\<close>: \<open>Array.prototype.sort\<close> is stable, so the
  result is in descending order of the key and elements of equal key keep the order
  they had.
\<close>

fun insertDesc :: "('a \<Rightarrow> 'k::linorder) \<Rightarrow> 'a \<Rightarrow> 'a list \<Rightarrow> 'a list" where
  "insertDesc key x [] = [x]"
| "insertDesc key x (y # ys) =
     (if key y \<le> key x then x # y # ys else y # insertDesc key x ys)"

definition sortDesc :: "('a \<Rightarrow> 'k::linorder) \<Rightarrow> 'a list \<Rightarrow> 'a list" where
  "sortDesc key xs = foldr (insertDesc key) xs []"

section \<open>The page as the content script sees it\<close>

record location =
  href :: string
  origin :: string
  protocol :: string

record rect =
  r_top :: rat
  r_left :: rat
  r_bottom :: rat
  r_right :: rat
  r_width :: rat
  r_height :: rat

record ancestor =
  a_className :: string
  a_role :: string
  a_borderRadius :: string

record element =
  tagName :: string
  src :: string
  srcsetAttr :: "string option"
  playsinline :: bool
  sourceSrcs :: "string list"
  alt :: string
  className :: string
  roleAttr :: string
  ariaLabel :: string
  ancestors :: "ancestor list"
  boundingRect :: rect
  naturalWidth :: rat
  naturalHeight :: rat
  videoWidth :: rat
  videoHeight :: rat
  display :: string
  visibility :: string
  opacity :: string
  hasOffsetParent :: bool
  backgroundImage :: string

text \<open>
  \<open>elements\<close> are the elements of the document and \<open>articles\<close> the descendants of
  each \<open>article\<close> element, both in document order (an element that no query of the
  detectors selects, such as \<open>html\<close> or \<open>body\<close>, may be left out). \<open>urlPathname u\<close> is the
  \<open>pathname\<close> of \<open>new URL(u, window.location.href)\<close>, \<open>None\<close> when the constructor
  throws. The \<open>k\<close>-th media object created by a detector reads \<open>nameClock k\<close> and
  \<open>mathRandom k\<close> when it has to generate a file name, and \<open>dateNow k\<close> for its time
  stamp.
\<close>

record document =
  window_location :: location
  innerWidth :: rat
  innerHeight :: rat
  clientWidth :: rat
  clientHeight :: rat
  elements :: "element list"
  articles :: "element list list"
  urlPathname :: "string \<Rightarrow> string option"
  nameClock :: "nat \<Rightarrow> nat"
  mathRandom :: "nat \<Rightarrow> string"
  dateNow :: "nat \<Rightarrow> nat"

definition isImg :: "element \<Rightarrow> bool" where
  \<comment> \<open>the selector \<open>img\<close>, and \<open>instanceof HTMLImageElement\<close>\<close>
  "isImg e = (toLowerCase (tagName e) = ''img'')"

definition isVideo :: "element \<Rightarrow> bool" where
  \<comment> \<open>the selector \<open>video\<close>, and \<open>instanceof HTMLVideoElement\<close>\<close>
  "isVideo e = (toLowerCase (tagName e) = ''video'')"

definition srcset :: "element \<Rightarrow> string" where
  \<comment> \<open>the property \<open>img.srcset\<close>: the attribute, or the empty string\<close>
  "srcset e = (case srcsetAttr e of None \<Rightarrow> [] | Some s \<Rightarrow> s)"

section \<open>Media extractor (\<open>content/utils/media-extractor.js\<close>)\<close>

record source =
  s_url :: string
  s_width :: rat

definition widthMatch :: "string \<Rightarrow> string option" where
  \<comment> \<open>\<open>descriptor.match(/^(\d+)w$/)\<close>: the digits, when the descriptor is one or more
      digits followed by \<open>w\<close> and nothing else\<close>
  "widthMatch descriptor =
     (if descriptor \<noteq> [] \<and> last descriptor = CHR ''w'' \<and> butlast descriptor \<noteq> []
         \<and> list_all isDigit (butlast descriptor)
      then Some (butlast descriptor) else None)"

definition parseSource :: "string \<Rightarrow> source" where
  \<comment> \<open>the function mapped over the pieces of the srcset\<close>
  "parseSource src_text =
     (let parts = splitSpaces (trim src_text);
          url = (case parts of [] \<Rightarrow> [] | p # _ \<Rightarrow> p);
          descriptor = (case parts of _ # d # _ \<Rightarrow> d | _ \<Rightarrow> []);
          width = (case widthMatch descriptor of None \<Rightarrow> 0 | Some ds \<Rightarrow> parseInt10 ds)
      in \<lparr>s_url = url, s_width = width\<rparr>)"

definition parseSrcset :: "string \<Rightarrow> source list" where
  "parseSrcset srcset_text = map parseSource (splitOn CHR '','' srcset_text)"

definition getHighestResolutionFromSrcset :: "string \<Rightarrow> string option" where
  \<comment> \<open>\<open>None\<close> is \<open>null\<close>\<close>
  "getHighestResolutionFromSrcset srcset_text =
     (if srcset_text = [] then None
      else let sources = sortDesc s_width (parseSrcset srcset_text)
           in (case sources of
                 [] \<Rightarrow> None
               | s # _ \<Rightarrow> if s_url s = [] then None else Some (s_url s)))"

definition makeAbsoluteUrl :: "location \<Rightarrow> string \<Rightarrow> string" where
  \<comment> \<open>\<open>null\<close> and \<open>undefined\<close> leave by the first branch, as the empty string does\<close>
  "makeAbsoluteUrl loc url =
     (if url = [] then url
      else if startsWith url ''http://'' \<or> startsWith url ''https://'' then url
      else if startsWith url ''//'' then protocol loc @ url
      else if startsWith url ''/'' then origin loc @ url
      else let base = substring (href loc) 0 (lastIndexOf (href loc) CHR ''/'' + 1)
           in base @ url)"

definition extractImageUrl :: "location \<Rightarrow> element \<Rightarrow> string option" where
  "extractImageUrl loc img =
     (case (if srcset img \<noteq> [] then getHighestResolutionFromSrcset (srcset img) else None) of
        Some highestResUrl \<Rightarrow> Some (makeAbsoluteUrl loc highestResUrl)
      | None \<Rightarrow> if src img \<noteq> [] then Some (makeAbsoluteUrl loc (src img)) else None)"

definition extractVideoUrl :: "location \<Rightarrow> element \<Rightarrow> string option" where
  "extractVideoUrl loc video =
     (if src video \<noteq> [] then Some (makeAbsoluteUrl loc (src video))
      else (case sourceSrcs video of
              [] \<Rightarrow> None
            | firstSource # _ \<Rightarrow>
                if firstSource \<noteq> [] then Some (makeAbsoluteUrl loc firstSource) else None))"

definition guessExtensionFromUrl :: "string \<Rightarrow> string" where
  "guessExtensionFromUrl url =
     (if url = [] then ''jpg''
      else let lowercaseUrl = toLowerCase url in
        if includesStr lowercaseUrl ''.png'' then ''png''
        else if includesStr lowercaseUrl ''.gif'' then ''gif''
        else if includesStr lowercaseUrl ''.webp'' then ''webp''
        else if includesStr lowercaseUrl ''.svg'' then ''svg''
        else if includesStr lowercaseUrl ''.bmp'' then ''bmp''
        else if includesStr lowercaseUrl ''.mp4'' then ''mp4''
        else if includesStr lowercaseUrl ''.webm'' then ''webm''
        else if includesStr lowercaseUrl ''.mov'' then ''mov''
        else if includesStr lowercaseUrl ''.avi'' then ''avi''
        else ''jpg'')"

definition generateFilename :: "nat \<Rightarrow> string \<Rightarrow> string \<Rightarrow> string" where
  \<comment> \<open>\<open>timestamp\<close> is the value of \<open>Date.now()\<close> and \<open>random\<close> the characters
      \<open>Math.random().toString(36).substring(2, 6)\<close> at the call\<close>
  "generateFilename timestamp random url =
     ''media_'' @ showNat timestamp @ ''_'' @ random @ ''.'' @ guessExtensionFromUrl url"

definition extractFilenameFromUrl :: "document \<Rightarrow> nat \<Rightarrow> string \<Rightarrow> string" where
  "extractFilenameFromUrl doc k url =
     (if url = [] then ''media''
      else (case urlPathname doc url of
              None \<Rightarrow> generateFilename (nameClock doc k) (mathRandom doc k) url
            | Some pathname \<Rightarrow>
                let filename = substringFrom pathname (lastIndexOf pathname CHR ''/'' + 1)
                in if filename \<noteq> [] \<and> includesStr filename ''.'' then filename
                   else generateFilename (nameClock doc k) (mathRandom doc k) url))"

record media =
  m_url :: string
  m_filename :: string
  m_type :: string
  m_score :: rat
  m_element :: string
  m_timestamp :: nat
  m_position :: "nat option"
  m_totalItems :: "nat option"

definition createMediaObject ::
  "document \<Rightarrow> nat \<Rightarrow> string \<Rightarrow> string \<Rightarrow> element \<Rightarrow> rat \<Rightarrow> media" where
  \<comment> \<open>the object has no \<open>position\<close> and no \<open>totalItems\<close> property\<close>
  "createMediaObject doc k url type element score =
     \<lparr>m_url = makeAbsoluteUrl (window_location doc) url,
      m_filename = extractFilenameFromUrl doc k url,
      m_type = type,
      m_score = score,
      m_element = toLowerCase (tagName element),
      m_timestamp = dateNow doc k,
      m_position = None,
      m_totalItems = None\<rparr>"

definition isValidMediaUrl :: "string \<Rightarrow> bool" where
  "isValidMediaUrl url =
     (if url = [] then False
      else if \<not> startsWith url ''http://'' \<and> \<not> startsWith url ''https://'' then False
      else if startsWith url ''data:'' then False
      else if length url > 2048 then False
      else True)"

section \<open>DOM analyzer (\<open>content/utils/dom-analyzer.js\<close>)\<close>

record size =
  sz_width :: rat
  sz_height :: rat
  sz_area :: rat

datatype visibility_class = Fully | Partially | NoneVisible

definition calculateElementSize :: "element \<Rightarrow> size" where
  "calculateElementSize element =
     (if isImg element \<and> 0 < naturalWidth element \<and> 0 < naturalHeight element then
        \<lparr>sz_width = naturalWidth element, sz_height = naturalHeight element,
         sz_area = fmul (naturalWidth element) (naturalHeight element)\<rparr>
      else if isVideo element \<and> 0 < videoWidth element \<and> 0 < videoHeight element then
        \<lparr>sz_width = videoWidth element, sz_height = videoHeight element,
         sz_area = fmul (videoWidth element) (videoHeight element)\<rparr>
      else let rect = boundingRect element in
        \<lparr>sz_width = r_width rect, sz_height = r_height rect,
         sz_area = fmul (r_width rect) (r_height rect)\<rparr>)"

definition getViewportVisibility :: "document \<Rightarrow> element \<Rightarrow> visibility_class" where
  "getViewportVisibility doc element =
     (let rect = boundingRect element;
          windowHeight = (if innerHeight doc \<noteq> 0 then innerHeight doc else clientHeight doc);
          windowWidth = (if innerWidth doc \<noteq> 0 then innerWidth doc else clientWidth doc)
      in if r_bottom rect < 0 \<or> windowHeight < r_top rect \<or> r_right rect < 0
            \<or> windowWidth < r_left rect
         then NoneVisible
         else if 0 \<le> r_top rect \<and> 0 \<le> r_left rect \<and> r_bottom rect \<le> windowHeight
                 \<and> r_right rect \<le> windowWidth
         then Fully
         else Partially)"

definition calculateViewportBonus :: "document \<Rightarrow> element \<Rightarrow> rat" where
  "calculateViewportBonus doc element =
     (case getViewportVisibility doc element of
        Fully \<Rightarrow> viewportBonusVisible
      | Partially \<Rightarrow> viewportBonusPartial
      | NoneVisible \<Rightarrow> 1)"

definition calculateQualityBonus :: "rat \<Rightarrow> rat" where
  "calculateQualityBonus width =
     (if 1920 < width then qualityBonusHD
      else if 1280 < width then qualityBonusSD
      else 1)"

definition shouldExcludeByClassName :: "element \<Rightarrow> bool" where
  "shouldExcludeByClassName element =
     (let classStr = toLowerCase (className element)
      in list_ex (\<lambda>excludeClass. includesStr classStr excludeClass) excludeClassNames)"

definition isTooSmall :: "size \<Rightarrow> bool" where
  "isTooSmall sz = (sz_width sz < minHeroSize \<or> sz_height sz < minHeroSize)"

definition isIcon :: "size \<Rightarrow> bool" where
  "isIcon sz = (sz_width sz < iconThreshold \<or> sz_height sz < iconThreshold)"

definition isElementVisible :: "element \<Rightarrow> bool" where
  "isElementVisible element =
     (display element \<noteq> ''none'' \<and> visibility element \<noteq> ''hidden''
      \<and> opacity element \<noteq> ''0'' \<and> hasOffsetParent element)"

definition getAllImages :: "document \<Rightarrow> element list" where
  "getAllImages doc = filter isImg (elements doc)"

definition getAllVideos :: "document \<Rightarrow> element list" where
  "getAllVideos doc = filter isVideo (elements doc)"

definition getElementsWithBackgroundImages :: "document \<Rightarrow> element list" where
  "getElementsWithBackgroundImages doc =
     filter (\<lambda>element. backgroundImage element \<noteq> [] \<and> backgroundImage element \<noteq> ''none'')
       (elements doc)"

definition isQuote :: "char \<Rightarrow> bool" where
  "isQuote c = (c = CHR 0x27 \<or> c = CHR 0x22)"

definition matchUrlAt :: "string \<Rightarrow> string option" where
  \<comment> \<open>the regular expression \<open>url\(['"]?([^'"]+)['"]?\)\<close> matched at the start of the
      string: the text of its group. The group takes the longest run of characters
      other than quotes for which the rest still matches.\<close>
  "matchUrlAt s =
     (if \<not> startsWith s ''url('' then None
      else let t = drop 4 s;
               t1 = (case t of [] \<Rightarrow> t | q # r \<Rightarrow> if isQuote q then r else t);
               run = takeWhile (\<lambda>c. \<not> isQuote c) t1;
               rest = dropWhile (\<lambda>c. \<not> isQuote c) t1
           in if run = [] then None
              else if (case rest of _ # c # _ \<Rightarrow> c = CHR '')'' | _ \<Rightarrow> False) then Some run
              else let i = lastIndexOf run CHR '')'' in
                   if 1 \<le> i then Some (take (nat i) run) else None)"

fun matchUrl :: "string \<Rightarrow> string option" where
  \<comment> \<open>the leftmost match in the string\<close>
  "matchUrl [] = None"
| "matchUrl (c # cs) =
     (case matchUrlAt (c # cs) of Some u \<Rightarrow> Some u | None \<Rightarrow> matchUrl cs)"

definition extractBackgroundImageUrl :: "element \<Rightarrow> string option" where
  "extractBackgroundImageUrl element =
     (if backgroundImage element = [] \<or> backgroundImage element = ''none'' then None
      else matchUrl (backgroundImage element))"

definition filterElements :: "element list \<Rightarrow> element list" where
  "filterElements els =
     filter (\<lambda>element.
        if \<not> isElementVisible element then False
        else let sz = calculateElementSize element in
          if isTooSmall sz then False
          else if excludeBySize \<and> isIcon sz then False
          else if shouldExcludeByClassName element then False
          else True) els"

section \<open>Generic detector (\<open>content/detectors/generic-detector.js\<close>)\<close>

definition heroScore :: "document \<Rightarrow> element \<Rightarrow> rat" where
  \<comment> \<open>the score each of the three stages computes for a filtered element:
      \<open>size.area * viewportBonus * qualityBonus\<close>\<close>
  "heroScore doc element =
     (let sz = calculateElementSize element;
          viewportBonus = calculateViewportBonus doc element;
          qualityBonus = calculateQualityBonus (sz_width sz)
      in fmul (fmul (sz_area sz) viewportBonus) qualityBonus)"

definition scoreElements :: "document \<Rightarrow> element list \<Rightarrow> (element \<times> rat) list" where
  \<comment> \<open>the \<open>map\<close> and the \<open>sort\<close> by descending score\<close>
  "scoreElements doc els = sortDesc snd (map (\<lambda>e. (e, heroScore doc e)) els)"

definition detectHeroVideo :: "document \<Rightarrow> media option" where
  "detectHeroVideo doc =
     (let videos = getAllVideos doc in
      if videos = [] then None
      else let validVideos = filterElements videos in
        if validVideos = [] then None
        else (case scoreElements doc validVideos of
                [] \<Rightarrow> None
              | (winner, score) # _ \<Rightarrow>
                  (case extractVideoUrl (window_location doc) winner of
                     None \<Rightarrow> None
                   | Some videoUrl \<Rightarrow>
                       if videoUrl = [] \<or> \<not> isValidMediaUrl videoUrl then None
                       else Some (createMediaObject doc 0 videoUrl ''video'' winner score))))"

definition detectHeroImage :: "document \<Rightarrow> media option" where
  "detectHeroImage doc =
     (let images = getAllImages doc in
      if images = [] then None
      else let validImages = filterElements images in
        if validImages = [] then None
        else (case scoreElements doc validImages of
                [] \<Rightarrow> None
              | (winner, score) # _ \<Rightarrow>
                  (case extractImageUrl (window_location doc) winner of
                     None \<Rightarrow> None
                   | Some imageUrl \<Rightarrow>
                       if imageUrl = [] \<or> \<not> isValidMediaUrl imageUrl then None
                       else Some (createMediaObject doc 0 imageUrl ''image'' winner score))))"

definition detectHeroBackgroundImage :: "document \<Rightarrow> media option" where
  "detectHeroBackgroundImage doc =
     (let els = getElementsWithBackgroundImages doc in
      if els = [] then None
      else let validElements = filterElements els in
        if validElements = [] then None
        else (case scoreElements doc validElements of
                [] \<Rightarrow> None
              | (winner, score) # _ \<Rightarrow>
                  (case extractBackgroundImageUrl winner of
                     None \<Rightarrow> None
                   | Some bgImageUrl \<Rightarrow>
                       if bgImageUrl = [] \<or> \<not> isValidMediaUrl bgImageUrl then None
                       else Some (createMediaObject doc 0 bgImageUrl ''image'' winner score))))"

definition detectHeroMedia :: "document \<Rightarrow> media list" where
  "detectHeroMedia doc =
     (case (if prioritizeVideos then detectHeroVideo doc else None) of
        Some heroVideo \<Rightarrow> [heroVideo]
      | None \<Rightarrow>
          (case detectHeroImage doc of
             Some heroImage \<Rightarrow> [heroImage]
           | None \<Rightarrow>
               (case detectHeroBackgroundImage doc of
                  Some heroBackgroundImage \<Rightarrow> [heroBackgroundImage]
                | None \<Rightarrow> [])))"

section \<open>Instagram detector (\<open>content/detectors/instagram-detector.js\<close>)\<close>

datatype post_type = Carousel | Video | Reel | Image | Unknown

definition isButton :: "element \<Rightarrow> bool" where
  "isButton e = (toLowerCase (tagName e) = ''button'')"

definition hasCarouselIndicators :: "document \<Rightarrow> bool" where
  "hasCarouselIndicators doc =
     (let nextButton = list_ex (\<lambda>e. isButton e \<and>
            (includesStr (ariaLabel e) ''Next'' \<or> includesStr (ariaLabel e) ''next'')) (elements doc);
          prevButton = list_ex (\<lambda>e. isButton e \<and>
            (includesStr (ariaLabel e) ''Previous'' \<or> includesStr (ariaLabel e) ''previous''))
            (elements doc);
          carouselDots = list_ex (\<lambda>e. roleAttr e = ''tablist'') (elements doc)
      in nextButton \<or> prevButton \<or> carouselDots)"

definition hasSrcset :: "element \<Rightarrow> bool" where
  \<comment> \<open>the selector \<open>img[srcset]\<close>\<close>
  "hasSrcset e = (isImg e \<and> srcsetAttr e \<noteq> None)"

definition detectPostType :: "document \<Rightarrow> post_type" where
  "detectPostType doc =
     (let url = href (window_location doc) in
      if includesStr url ''/reel/'' \<or> includesStr url ''/reels/'' then Reel
      else if hasCarouselIndicators doc then Carousel
      else if concat (map (filter isVideo) (articles doc)) \<noteq> [] then Video
      else if concat (map (filter hasSrcset) (articles doc)) \<noteq> [] then Image
      else Unknown)"

fun profileAncestor :: "ancestor list \<Rightarrow> nat \<Rightarrow> bool" where
  \<comment> \<open>the walk up the parents while \<open>parent && depth < 5\<close>\<close>
  "profileAncestor [] depth = False"
| "profileAncestor (parent # up) depth =
     (if depth < 5 then
        (let parentClass = toLowerCase (a_className parent);
             parentRole = toLowerCase (a_role parent)
         in if includesStr parentClass ''profile'' \<or> includesStr parentRole ''profile'' then True
            else if a_borderRadius parent = ''50%'' then True
            else profileAncestor up (depth + 1))
      else False)"

definition isProfilePicture :: "element \<Rightarrow> bool" where
  "isProfilePicture img =
     (let alt_text = toLowerCase (alt img) in
      if includesStr alt_text ''profile picture'' \<or> includesStr alt_text (CHR 0x27 # ''s profile picture'')
      then True
      else if profileAncestor (ancestors img) 0 then True
      else let rect = boundingRect img in
        if r_width rect < 150 \<and> r_height rect < 150
           \<and> \<bar>fsub (r_width rect) (r_height rect)\<bar> < 10
        then True else False)"

definition uiKeywords :: "string list" where
  "uiKeywords = [''icon'', ''logo'', ''emoji'', ''sticker'', ''badge'', ''verified'']"

definition isUIElement :: "element \<Rightarrow> bool" where
  "isUIElement img =
     (let alt_text = toLowerCase (alt img);
          class_text = toLowerCase (className img)
      in if list_ex (\<lambda>keyword. includesStr alt_text keyword \<or> includesStr class_text keyword)
              uiKeywords
         then True
         else let rect = boundingRect img in
           if r_width rect < 50 \<or> r_height rect < 50 then True else False)"

definition addPositionToFilename :: "string \<Rightarrow> nat \<Rightarrow> nat \<Rightarrow> string" where
  "addPositionToFilename filename position total_n =
     (if total_n = 1 then filename
      else let lastDotIndex = lastIndexOf filename CHR ''.'' in
        if lastDotIndex = - 1 then filename @ ''_'' @ showNat position
        else let name = substring filename 0 lastDotIndex;
                 extension = substringFrom filename lastDotIndex
             in name @ ''_'' @ showNat position @ extension)"

fun collectImages ::
  "document \<Rightarrow> element list \<Rightarrow> media list \<times> string set \<Rightarrow> media list \<times> string set" where
  \<comment> \<open>the loop over \<open>images\<close> with \<open>mediaList\<close> and \<open>uniqueImageUrls\<close>\<close>
  "collectImages doc [] (mediaList, uniqueImageUrls) = (mediaList, uniqueImageUrls)"
| "collectImages doc (img # rest) (mediaList, uniqueImageUrls) =
     (if isProfilePicture img \<or> isUIElement img then
        collectImages doc rest (mediaList, uniqueImageUrls)
      else (case extractImageUrl (window_location doc) img of
              None \<Rightarrow> collectImages doc rest (mediaList, uniqueImageUrls)
            | Some url \<Rightarrow>
                if url \<noteq> [] \<and> isValidMediaUrl url \<and> url \<notin> uniqueImageUrls then
                  collectImages doc rest
                    (mediaList @ [createMediaObject doc (length mediaList) url ''image'' img 0],
                     insert url uniqueImageUrls)
                else collectImages doc rest (mediaList, uniqueImageUrls)))"

fun collectVideos ::
  "document \<Rightarrow> element list \<Rightarrow> media list \<times> string set \<Rightarrow> media list \<times> string set" where
  \<comment> \<open>the loop over \<open>videos\<close> with \<open>mediaList\<close> and \<open>uniqueVideoUrls\<close>\<close>
  "collectVideos doc [] (mediaList, uniqueVideoUrls) = (mediaList, uniqueVideoUrls)"
| "collectVideos doc (video # rest) (mediaList, uniqueVideoUrls) =
     (case extractVideoUrl (window_location doc) video of
        None \<Rightarrow> collectVideos doc rest (mediaList, uniqueVideoUrls)
      | Some url \<Rightarrow>
          if url \<noteq> [] \<and> isValidMediaUrl url \<and> url \<notin> uniqueVideoUrls then
            collectVideos doc rest
              (mediaList @ [createMediaObject doc (length mediaList) url ''video'' video 0],
               insert url uniqueVideoUrls)
          else collectVideos doc rest (mediaList, uniqueVideoUrls))"

definition numberItems :: "media list \<Rightarrow> media list" where
  \<comment> \<open>\<open>limited.map((media, index) => ...)\<close>\<close>
  "numberItems limited =
     map (\<lambda>(index, item).
            item\<lparr>m_filename := addPositionToFilename (m_filename item) (index + 1) (length limited),
                 m_position := Some (index + 1),
                 m_totalItems := Some (length limited)\<rparr>)
         (enumerate 0 limited)"

definition detectCarousel :: "document \<Rightarrow> media list" where
  "detectCarousel doc =
     (case articles doc of
        [] \<Rightarrow> []
      | article # _ \<Rightarrow>
          let images = filter hasSrcset article;
              (mediaList1, uniqueImageUrls) = collectImages doc images ([], {});
              videos = filter isVideo article;
              (mediaList, uniqueVideoUrls) = collectVideos doc videos (mediaList1, {});
              limited = take maxCarouselItems mediaList
          in numberItems limited)"

definition detectVideo :: "document \<Rightarrow> media list" where
  "detectVideo doc =
     (case articles doc of
        [] \<Rightarrow> []
      | article # _ \<Rightarrow>
          (case find isVideo article of
             None \<Rightarrow> []
           | Some video \<Rightarrow>
               (case extractVideoUrl (window_location doc) video of
                  None \<Rightarrow> []
                | Some url \<Rightarrow>
                    if url = [] \<or> \<not> isValidMediaUrl url then []
                    else [createMediaObject doc 0 url ''video'' video 0])))"

definition detectReel :: "document \<Rightarrow> media list" where
  "detectReel doc =
     (case find (\<lambda>e. isVideo e \<and> playsinline e) (elements doc) of
        None \<Rightarrow> []
      | Some video \<Rightarrow>
          (case extractVideoUrl (window_location doc) video of
             None \<Rightarrow> []
           | Some url \<Rightarrow>
               if url = [] \<or> \<not> isValidMediaUrl url then []
               else [createMediaObject doc 0 url ''video'' video 0]))"

fun firstImage :: "document \<Rightarrow> element list \<Rightarrow> media list" where
  \<comment> \<open>the loop of \<open>detectImage\<close>, which returns at the first image it accepts\<close>
  "firstImage doc [] = []"
| "firstImage doc (img # rest) =
     (if isProfilePicture img \<or> isUIElement img then firstImage doc rest
      else (case extractImageUrl (window_location doc) img of
              None \<Rightarrow> firstImage doc rest
            | Some url \<Rightarrow>
                if url \<noteq> [] \<and> isValidMediaUrl url
                then [createMediaObject doc 0 url ''image'' img 0]
                else firstImage doc rest))"

definition detectImage :: "document \<Rightarrow> media list" where
  "detectImage doc =
     (case articles doc of
        [] \<Rightarrow> []
      | article # _ \<Rightarrow> firstImage doc (filter hasSrcset article))"

definition detectHeroMediaInstagram :: "document \<Rightarrow> media list" where
  \<comment> \<open>\<open>detectHeroMedia\<close> of the Instagram detector\<close>
  "detectHeroMediaInstagram doc =
     (case detectPostType doc of
        Carousel \<Rightarrow> detectCarousel doc
      | Video \<Rightarrow> detectVideo doc
      | Reel \<Rightarrow> detectReel doc
      | Image \<Rightarrow> detectImage doc
      | Unknown \<Rightarrow> [])"

section \<open>Download queue (\<open>background/download-queue.js\<close>)\<close>

datatype item_status = Pending | Downloading | Completed

record queue_item =
  qi_media :: media
  qi_sourceUrl :: string
  qi_retryCount :: nat
  qi_status :: item_status

datatype result_status = ResultCompleted | ResultFailed

record download_result =
  dr_media :: media
  dr_status :: result_status
  dr_downloadId :: "nat option"
  dr_error :: "string option"

record download_queue =
  queue :: "queue_item list"
  isProcessing :: bool
  currentDownload :: "queue_item option"
  results :: "download_result option list"

text \<open>
  An entry of \<open>results\<close> is \<open>None\<close> where the source would push \<open>undefined\<close>.

  The browser's download transport is the environment. What it does with the
  \<open>n\<close>-th request it receives is an \<open>outcome\<close>: it rejects the request with a
  message, or it returns a download id and then reports completion, reports an
  error, or reports nothing before the 60 second timer of \<open>waitForDownload\<close> fires.
  The \<open>world\<close> records the requests made so far and the delays slept.
\<close>

datatype outcome =
    Rejected string
  | Complete nat
  | ErrorEvent nat string
  | Silent nat

type_synonym transport = "nat \<Rightarrow> outcome"

record world =
  requests :: "(string \<times> string) list"
  sleeps :: "nat list"

definition createDownloadQueue :: download_queue where
  "createDownloadQueue = \<lparr>queue = [], isProcessing = False, currentDownload = None, results = []\<rparr>"

definition add :: "media list \<Rightarrow> string \<Rightarrow> download_queue \<Rightarrow> download_queue" where
  "add mediaItems sourceUrl q =
     q\<lparr>queue := queue q @
          map (\<lambda>m. \<lparr>qi_media = m, qi_sourceUrl = sourceUrl, qi_retryCount = 0,
                      qi_status = Pending\<rparr>) mediaItems\<rparr>"

definition downloadFile ::
  "transport \<Rightarrow> string \<Rightarrow> string \<Rightarrow> world \<Rightarrow> (string + nat) \<times> outcome \<times> world" where
  \<comment> \<open>one call of \<open>browserAPI.downloads.download\<close>; \<open>Inl\<close> is the message of the
      error thrown. The outcome is handed on to \<open>waitForDownload\<close>.\<close>
  "downloadFile env url filename w =
     (let oc = env (length (requests w));
          w' = w\<lparr>requests := requests w @ [(url, filename)]\<rparr>
      in (case oc of
            Rejected msg \<Rightarrow> (Inl (''Failed to start download: '' @ msg), oc, w')
          | Complete downloadId \<Rightarrow> (Inr downloadId, oc, w')
          | ErrorEvent downloadId e \<Rightarrow> (Inr downloadId, oc, w')
          | Silent downloadId \<Rightarrow> (Inr downloadId, oc, w')))"

definition waitForDownload :: "outcome \<Rightarrow> nat \<Rightarrow> string + bool" where
  \<comment> \<open>the promise resolves with \<open>true\<close>, or rejects with an error's message. A
      rejected request has no download id, so the last case is never reached.\<close>
  "waitForDownload oc downloadId =
     (case oc of
        Complete i \<Rightarrow> Inr True
      | ErrorEvent i e \<Rightarrow> Inl e
      | Silent i \<Rightarrow> Inl ''Download timeout''
      | Rejected msg \<Rightarrow> Inl ''Download timeout'')"

definition retryDelay :: "nat \<Rightarrow> nat" where
  \<comment> \<open>\<open>CONFIG.downloads.retryDelays[attempt] || 2000\<close>\<close>
  "retryDelay attempt =
     (if attempt < length retryDelays \<and> retryDelays ! attempt \<noteq> 0
      then retryDelays ! attempt else 2000)"

definition attemptDownload ::
  "transport \<Rightarrow> media \<Rightarrow> world \<Rightarrow> (string + download_result) \<times> world" where
  \<comment> \<open>the body of the \<open>try\<close> block of one attempt, after the item is marked\<close>
  "attemptDownload env m w =
     (case downloadFile env (m_url m) (m_filename m) w of
        (Inl err, oc, w') \<Rightarrow> (Inl err, w')
      | (Inr downloadId, oc, w') \<Rightarrow>
          (case waitForDownload oc downloadId of
             Inl err \<Rightarrow> (Inl err, w')
           | Inr success \<Rightarrow>
               if success then
                 (Inr \<lparr>dr_media = m, dr_status = ResultCompleted,
                       dr_downloadId = Some downloadId, dr_error = None\<rparr>, w')
               else (Inl ''Download did not complete successfully'', w')))"

function downloadWithRetry ::
  "transport \<Rightarrow> nat \<Rightarrow> queue_item \<Rightarrow> world
     \<Rightarrow> (string + download_result option) \<times> queue_item \<times> world" where
  \<comment> \<open>the \<open>for\<close> loop from the given value of \<open>attempt\<close>; \<open>Inl\<close> is the message of
      the error thrown, \<open>Inr None\<close> the \<open>undefined\<close> of leaving the loop\<close>
  "downloadWithRetry env attempt item w =
     (let maxRetries = retryAttempts in
      if attempt \<le> maxRetries then
        (let item1 = item\<lparr>qi_retryCount := attempt, qi_status := Downloading\<rparr>
         in (case attemptDownload env (qi_media item) w of
               (Inr r, w') \<Rightarrow> (Inr (Some r), item1\<lparr>qi_status := Completed\<rparr>, w')
             | (Inl err, w') \<Rightarrow>
                 if attempt < maxRetries then
                   downloadWithRetry env (attempt + 1) item1
                     (w'\<lparr>sleeps := sleeps w' @ [retryDelay attempt]\<rparr>)
                 else (Inl err, item1, w')))
      else (Inr None, item, w))"
  by pat_completeness auto
termination
  by (relation "measure (\<lambda>(env, attempt, item, w). Suc retryAttempts - attempt)") auto

declare downloadWithRetry.simps [simp del]

definition processItem ::
  "transport \<Rightarrow> queue_item \<Rightarrow> download_queue \<times> world \<Rightarrow> download_queue \<times> world" where
  \<comment> \<open>the body of the \<open>while\<close> loop of \<open>process\<close> after \<open>queue.shift()\<close>\<close>
  "processItem env item qw =
     (let (q, w) = qw;
          q1 = q\<lparr>currentDownload := Some item\<rparr>
      in (case downloadWithRetry env 0 item w of
            (Inr r, item', w') \<Rightarrow>
              (q1\<lparr>results := results q1 @ [r], currentDownload := None\<rparr>, w')
          | (Inl err, item', w') \<Rightarrow>
              (q1\<lparr>results := results q1 @
                   [Some \<lparr>dr_media = qi_media item, dr_status = ResultFailed,
                          dr_downloadId = None, dr_error = Some err\<rparr>],
                  currentDownload := None\<rparr>, w')))"

lemma queue_processItem: "queue (fst (processItem env item (q, w))) = queue q"
  by (simp add: processItem_def Let_def split: prod.splits sum.splits)

function drain :: "transport \<Rightarrow> download_queue \<times> world \<Rightarrow> download_queue \<times> world" where
  \<comment> \<open>\<open>while (this.queue.length > 0)\<close>\<close>
  "drain env (q, w) =
     (case queue q of
        [] \<Rightarrow> (q, w)
      | item # rest \<Rightarrow> drain env (processItem env item (q\<lparr>queue := rest\<rparr>, w)))"
  by pat_completeness auto
termination
proof (relation "measure (\<lambda>(env, q, w). length (queue q))")
  show "wf (measure (\<lambda>(env, q, w). length (queue q)))"
    by simp
next
  fix env :: transport and q :: download_queue and w :: world and item rest
  assume "queue q = item # rest"
  moreover have "queue (fst (processItem env item (q\<lparr>queue := rest\<rparr>, w))) = rest"
    by (simp add: queue_processItem)
  ultimately show "((env, processItem env item (q\<lparr>queue := rest\<rparr>, w)), env, q, w)
      \<in> measure (\<lambda>(env, q, w). length (queue q))"
    by (cases "processItem env item (q\<lparr>queue := rest\<rparr>, w)") simp
qed

declare drain.simps [simp del]

definition process ::
  "transport \<Rightarrow> download_queue \<times> world
     \<Rightarrow> (string + download_result option list) \<times> download_queue \<times> world" where
  \<comment> \<open>\<open>Inl\<close> is the message of the error \<open>process()\<close> throws, \<open>Inr\<close> the list it
      resolves with\<close>
  "process env qw =
     (let (q, w) = qw in
      if isProcessing q then (Inl ''Queue is already being processed'', q, w)
      else let (q', w') = drain env (q\<lparr>isProcessing := True, results := []\<rparr>, w);
               q'' = q'\<lparr>isProcessing := False\<rparr>
           in (Inr (results q''), q'', w'))"

record queue_status =
  st_isProcessing :: bool
  st_queueLength :: nat
  st_currentDownload :: "queue_item option"
  st_completedCount :: nat
  st_failedCount :: nat

definition resultHasStatus :: "result_status \<Rightarrow> download_result option \<Rightarrow> bool" where
  "resultHasStatus st r = (case r of None \<Rightarrow> False | Some x \<Rightarrow> dr_status x = st)"

definition getStatus :: "download_queue \<Rightarrow> queue_status" where
  "getStatus q =
     \<lparr>st_isProcessing = isProcessing q,
      st_queueLength = length (queue q),
      st_currentDownload = currentDownload q,
      st_completedCount = length (filter (resultHasStatus ResultCompleted) (results q)),
      st_failedCount = length (filter (resultHasStatus ResultFailed) (results q))\<rparr>"

definition clear :: "download_queue \<Rightarrow> download_queue" where
  "clear q = q\<lparr>queue := [], results := [], currentDownload := None, isProcessing := False\<rparr>"

section \<open>Notions of the specification and example inputs\<close>

definition knownExtensions :: "string list" where
  "knownExtensions = [''png'', ''gif'', ''webp'', ''svg'', ''bmp'', ''mp4'', ''webm'', ''mov'', ''avi'']"

definition isHttpLocation :: "location \<Rightarrow> bool" where
  "isHttpLocation loc =
     ((protocol loc = ''http:'' \<or> protocol loc = ''https:'')
      \<and> (startsWith (origin loc) ''http://'' \<or> startsWith (origin loc) ''https://'')
      \<and> (startsWith (href loc) ''http://'' \<or> startsWith (href loc) ''https://''))"

definition plainAncestor :: ancestor where
  \<comment> \<open>an ancestor without class, role or rounded border\<close>
  "plainAncestor = \<lparr>a_className = [], a_role = [], a_borderRadius = ''0px''\<rparr>"

definition examplePathname :: "string \<Rightarrow> string option" where
  \<comment> \<open>the path of an absolute \<open>https\<close> URL: what follows the host, up to the query or
      fragment\<close>
  "examplePathname u =
     (if startsWith u ''https://'' then
        Some (takeWhile (\<lambda>c. c \<noteq> CHR ''?'' \<and> c \<noteq> CHR ''#'')
                (dropWhile (\<lambda>c. c \<noteq> CHR ''/'') (drop 8 u)))
      else None)"

definition exampleMedia :: "string \<Rightarrow> string \<Rightarrow> media" where
  "exampleMedia u f =
     \<lparr>m_url = u, m_filename = f, m_type = ''image'', m_score = 0, m_element = ''img'',
      m_timestamp = 0, m_position = None, m_totalItems = None\<rparr>"

definition busyQueue :: download_queue where
  "busyQueue =
     \<lparr>queue = [\<lparr>qi_media = exampleMedia ''https://example.com/b.jpg'' ''b.jpg'',
                 qi_sourceUrl = ''https://example.com/post'', qi_retryCount = 0,
                 qi_status = Pending\<rparr>],
      isProcessing = True,
      currentDownload = Some \<lparr>qi_media = exampleMedia ''https://example.com/a.jpg'' ''a.jpg'',
                 qi_sourceUrl = ''https://example.com/post'', qi_retryCount = 1,
                 qi_status = Downloading\<rparr>,
      results = []\<rparr>"

definition fixturePage :: location where
  "fixturePage = \<lparr>href = ''file:///fixtures/page.html'', origin = ''null'', protocol = ''file:''\<rparr>"

definition examplePage :: location where
  "examplePage = \<lparr>href = ''https://example.com/page/article.html'',
                   origin = ''https://example.com'', protocol = ''https:''\<rparr>"

definition heroImage2000 :: element where
  "heroImage2000 =
     \<lparr>tagName = ''IMG'', src = ''https://example.com/hero.jpg'', srcsetAttr = None,
      playsinline = False, sourceSrcs = [], alt = ''Hero'', className = ''hero'',
      roleAttr = [], ariaLabel = [], ancestors = [plainAncestor, plainAncestor, plainAncestor],
      boundingRect = \<lparr>r_top = 100, r_left = 0, r_bottom = 1060, r_right = 1920,
                      r_width = 1920, r_height = 960\<rparr>,
      naturalWidth = 2000, naturalHeight = 1000, videoWidth = 0, videoHeight = 0,
      display = ''block'', visibility = ''visible'', opacity = ''1'',
      hasOffsetParent = True, backgroundImage = ''none''\<rparr>"

definition desktopPage :: "element list \<Rightarrow> document" where
  "desktopPage els =
     \<lparr>window_location = examplePage, innerWidth = 1920, innerHeight = 1080,
      clientWidth = 1920, clientHeight = 1080, elements = els, articles = [],
      urlPathname = examplePathname, nameClock = (\<lambda>k. 1700000000000), mathRandom = (\<lambda>k. ''k3x9''),
      dateNow = (\<lambda>k. 1700000000000)\<rparr>"

fun firstMax :: "('a \<Rightarrow> 'k::linorder) \<Rightarrow> 'a list \<Rightarrow> 'a option" where
  "firstMax key [] = None"
| "firstMax key (x # xs) =
     (case firstMax key xs of
        None \<Rightarrow> Some x
      | Some y \<Rightarrow> if key y \<le> key x then Some x else Some y)"

definition descriptorOf :: "string \<Rightarrow> string" where
  \<comment> \<open>the second white-space separated token of a srcset entry, empty when absent\<close>
  "descriptorOf piece = (case splitSpaces (trim piece) of _ # d # _ \<Rightarrow> d | _ \<Rightarrow> [])"

definition urlOf :: "string \<Rightarrow> string" where
  \<comment> \<open>the first white-space separated token of a srcset entry: its URL\<close>
  "urlOf piece = (case splitSpaces (trim piece) of [] \<Rightarrow> [] | p # _ \<Rightarrow> p)"

definition declaredWidth :: "string \<Rightarrow> int" where
  \<comment> \<open>the width a srcset entry declares: the integer its descriptor writes before
      \<open>w\<close>, and 0 when the descriptor is not of that form\<close>
  "declaredWidth piece =
     (case widthMatch (descriptorOf piece) of None \<Rightarrow> 0 | Some ds \<Rightarrow> decimalValue ds)"

definition wideSrcset :: string where
  "wideSrcset = ''a.jpg 9007199254740992w, b.jpg 9007199254740993w''"

definition exampleSrcset :: string where
  "exampleSrcset = ''small.jpg 320w, large.jpg 1280w, other.jpg 1280w, plain.jpg, odd.jpg 2x''"

definition srcsetImage :: "string \<Rightarrow> string \<Rightarrow> element" where
  "srcsetImage set_text src_text =
     \<lparr>tagName = ''IMG'', src = src_text, srcsetAttr = Some set_text,
      playsinline = False, sourceSrcs = [], alt = ''Photo'', className = [],
      roleAttr = [], ariaLabel = [], ancestors = [plainAncestor, plainAncestor, plainAncestor],
      boundingRect = \<lparr>r_top = 0, r_left = 0, r_bottom = 600, r_right = 600,
                      r_width = 600, r_height = 600\<rparr>,
      naturalWidth = 1080, naturalHeight = 1080, videoWidth = 0, videoHeight = 0,
      display = ''block'', visibility = ''visible'', opacity = ''1'',
      hasOffsetParent = True, backgroundImage = ''none''\<rparr>"

definition failing :: "outcome \<Rightarrow> bool" where
  \<comment> \<open>the attempt fails: the transport rejects the request, reports an error, or
      reports nothing before the timeout\<close>
  "failing oc = (case oc of Complete i \<Rightarrow> False | _ \<Rightarrow> True)"

definition errorMessage :: "outcome \<Rightarrow> string" where
  \<comment> \<open>the message of the error a failing attempt throws\<close>
  "errorMessage oc =
     (case oc of
        Rejected msg \<Rightarrow> ''Failed to start download: '' @ msg
      | ErrorEvent i e \<Rightarrow> e
      | Silent i \<Rightarrow> ''Download timeout''
      | Complete i \<Rightarrow> [])"

definition failedResult :: "media \<Rightarrow> string \<Rightarrow> download_result" where
  "failedResult m err =
     \<lparr>dr_media = m, dr_status = ResultFailed, dr_downloadId = None, dr_error = Some err\<rparr>"

definition completedResult :: "media \<Rightarrow> nat \<Rightarrow> download_result" where
  "completedResult m i =
     \<lparr>dr_media = m, dr_status = ResultCompleted, dr_downloadId = Some i, dr_error = None\<rparr>"

definition request :: "queue_item \<Rightarrow> string \<times> string" where
  \<comment> \<open>the URL and file name a transfer request for the item carries\<close>
  "request item = (m_url (qi_media item), m_filename (qi_media item))"

definition idleWorld :: world where
  "idleWorld = \<lparr>requests = [], sleeps = []\<rparr>"

definition secondFails :: transport where
  \<comment> \<open>the first request completes, the next four fail in the three ways an attempt
      can fail, every later one completes\<close>
  "secondFails n =
     (if n = 0 then Complete 100
      else if n = 1 then Rejected ''Invalid URL''
      else if n = 2 then ErrorEvent 101 ''NETWORK_FAILED''
      else if n = 3 then Silent 102
      else if n = 4 then ErrorEvent 103 ''SERVER_FAILED''
      else Complete (100 + n))"

definition oneRequestMade :: world where
  "oneRequestMade = \<lparr>requests = [(''https://example.com/1.jpg'', ''1.jpg'')], sleeps = []\<rparr>"

definition secondItem :: queue_item where
  "secondItem = \<lparr>qi_media = exampleMedia ''https://example.com/2.jpg'' ''2.jpg'',
                  qi_sourceUrl = ''https://example.com/post'', qi_retryCount = 0,
                  qi_status = Pending\<rparr>"

definition firstItem :: queue_item where
  "firstItem = \<lparr>qi_media = exampleMedia ''https://example.com/1.jpg'' ''1.jpg'',
                 qi_sourceUrl = ''https://example.com/post'', qi_retryCount = 0,
                 qi_status = Pending\<rparr>"

definition thirdItem :: queue_item where
  "thirdItem = \<lparr>qi_media = exampleMedia ''https://example.com/3.jpg'' ''3.jpg'',
                 qi_sourceUrl = ''https://example.com/post'', qi_retryCount = 0,
                 qi_status = Pending\<rparr>"

definition threeItems :: "media list" where
  "threeItems =
     [exampleMedia ''https://example.com/1.jpg'' ''1.jpg'',
      exampleMedia ''https://example.com/2.jpg'' ''2.jpg'',
      exampleMedia ''https://example.com/3.jpg'' ''3.jpg'']"

fun firstOccurrences :: "'a list \<Rightarrow> 'a list" where
  \<comment> \<open>the list without repetitions: of equal elements the first one stays\<close>
  "firstOccurrences [] = []"
| "firstOccurrences (x # xs) = x # filter (\<lambda>y. y \<noteq> x) (firstOccurrences xs)"

definition imageCandidate :: "document \<Rightarrow> element \<Rightarrow> string option" where
  \<comment> \<open>the resolved URL of an image that qualifies for a carousel: it is neither a
      profile picture nor a UI element and its URL is valid\<close>
  "imageCandidate doc img =
     (if isProfilePicture img \<or> isUIElement img then None
      else (case extractImageUrl (window_location doc) img of
              None \<Rightarrow> None
            | Some u \<Rightarrow> if u \<noteq> [] \<and> isValidMediaUrl u then Some u else None))"

definition videoCandidate :: "document \<Rightarrow> element \<Rightarrow> string option" where
  \<comment> \<open>the resolved URL of a video that qualifies: its URL is valid\<close>
  "videoCandidate doc video =
     (case extractVideoUrl (window_location doc) video of
        None \<Rightarrow> None
      | Some u \<Rightarrow> if u \<noteq> [] \<and> isValidMediaUrl u then Some u else None)"

definition imageUrls :: "document \<Rightarrow> element list \<Rightarrow> string list" where
  \<comment> \<open>the resolved URLs of the qualifying images with a srcset, in document order\<close>
  "imageUrls doc article = List.map_filter (imageCandidate doc) (filter hasSrcset article)"

definition videoUrls :: "document \<Rightarrow> element list \<Rightarrow> string list" where
  \<comment> \<open>the resolved URLs of the qualifying videos, in document order\<close>
  "videoUrls doc article = List.map_filter (videoCandidate doc) (filter isVideo article)"

definition kindAndUrl :: "media \<Rightarrow> string \<times> string" where
  "kindAndUrl m = (m_type m, m_url m)"

definition limitedItems :: "document \<Rightarrow> media list" where
  \<comment> \<open>the value of the local variable \<open>limited\<close> of \<open>detectCarousel\<close>\<close>
  "limitedItems doc =
     (case articles doc of
        [] \<Rightarrow> []
      | article # _ \<Rightarrow>
          take maxCarouselItems
            (fst (collectVideos doc (filter isVideo article)
               (fst (collectImages doc (filter hasSrcset article) ([], {})), {}))))"

definition videoElement :: "string \<Rightarrow> element" where
  "videoElement src_text =
     \<lparr>tagName = ''VIDEO'', src = src_text, srcsetAttr = None,
      playsinline = True, sourceSrcs = [], alt = [], className = [],
      roleAttr = [], ariaLabel = [], ancestors = [plainAncestor, plainAncestor, plainAncestor],
      boundingRect = \<lparr>r_top = 0, r_left = 0, r_bottom = 600, r_right = 600,
                      r_width = 600, r_height = 600\<rparr>,
      naturalWidth = 0, naturalHeight = 0, videoWidth = 1080, videoHeight = 1080,
      display = ''block'', visibility = ''visible'', opacity = ''1'',
      hasOffsetParent = True, backgroundImage = ''none''\<rparr>"

definition instagramPost :: "element list \<Rightarrow> document" where
  \<comment> \<open>a page of one article with the given descendants\<close>
  "instagramPost article =
     \<lparr>window_location = \<lparr>href = ''https://www.instagram.com/p/ABC123/'',
                          origin = ''https://www.instagram.com'', protocol = ''https:''\<rparr>,
      innerWidth = 1920, innerHeight = 1080, clientWidth = 1920, clientHeight = 1080,
      elements = article, articles = [article],
      urlPathname = examplePathname,
      nameClock = (\<lambda>k. 1700000000000), mathRandom = (\<lambda>k. ''k3x9''),
      dateNow = (\<lambda>k. 1700000000000)\<rparr>"

definition nextButton :: element where
  "nextButton =
     \<lparr>tagName = ''BUTTON'', src = [], srcsetAttr = None,
      playsinline = False, sourceSrcs = [], alt = [], className = [],
      roleAttr = [], ariaLabel = ''Next'', ancestors = [plainAncestor, plainAncestor, plainAncestor],
      boundingRect = \<lparr>r_top = 280, r_left = 560, r_bottom = 320, r_right = 600,
                      r_width = 40, r_height = 40\<rparr>,
      naturalWidth = 0, naturalHeight = 0, videoWidth = 0, videoHeight = 0,
      display = ''block'', visibility = ''visible'', opacity = ''1'',
      hasOffsetParent = True, backgroundImage = ''none''\<rparr>"

definition sameUrlPost :: document where
  \<comment> \<open>a post with a carousel control, a video, and after it an image whose srcset
      names the same URL\<close>
  "sameUrlPost =
     instagramPost
       [nextButton,
        videoElement ''https://cdn.example.com/p/clip.mp4'',
        srcsetImage ''https://cdn.example.com/p/clip.mp4 1080w'' ''https://cdn.example.com/p/clip.mp4'']"

definition mixedPost :: document where
  \<comment> \<open>a post with a carousel control, an image that occurs twice, a video and a
      second image\<close>
  "mixedPost =
     instagramPost
       [nextButton,
        srcsetImage ''https://cdn.example.com/p/a.jpg 1080w'' ''https://cdn.example.com/p/a.jpg'',
        srcsetImage ''https://cdn.example.com/p/a.jpg 1080w'' ''https://cdn.example.com/p/a.jpg'',
        videoElement ''https://cdn.example.com/p/clip.mp4'',
        srcsetImage ''https://cdn.example.com/p/b.jpg 1080w'' ''https://cdn.example.com/p/b.jpg'']"

definition stem :: "string \<Rightarrow> string" where
  \<comment> \<open>the file name before its last dot\<close>
  "stem f = rev (tl (dropWhile (\<lambda>c. c \<noteq> CHR ''.'') (rev f)))"

definition extension :: "string \<Rightarrow> string" where
  \<comment> \<open>the last dot of the file name and what follows it\<close>
  "extension f = CHR ''.'' # rev (takeWhile (\<lambda>c. c \<noteq> CHR ''.'') (rev f))"

definition singlePost :: document where
  \<comment> \<open>a post with a carousel control and a single image\<close>
  "singlePost =
     instagramPost
       [nextButton,
        srcsetImage ''https://cdn.example.com/p/a.jpg 1080w'' ''https://cdn.example.com/p/a.jpg'']"

section \<open>Verified properties\<close>

subsection \<open>File name extensions\<close>

lemma includesStr_iff: "includesStr s sub \<longleftrightarrow> (\<exists>ps ss. s = ps @ sub @ ss)"
proof (induction s)
  case Nil
  then show ?case by auto
next
  case (Cons c cs)
  have "startsWith (c # cs) sub \<longleftrightarrow> (\<exists>ss. c # cs = sub @ ss)"
    unfolding startsWith_def
    by (metis append_eq_conv_conj)
  moreover have "(\<exists>ps ss. c # cs = ps @ sub @ ss) \<longleftrightarrow>
      (\<exists>ss. c # cs = sub @ ss) \<or> (\<exists>ps ss. cs = ps @ sub @ ss)"
  proof
    assume "\<exists>ps ss. c # cs = ps @ sub @ ss"
    then obtain ps ss where e: "c # cs = ps @ sub @ ss" by blast
    show "(\<exists>ss. c # cs = sub @ ss) \<or> (\<exists>ps ss. cs = ps @ sub @ ss)"
    proof (cases ps)
      case Nil
      with e show ?thesis by auto
    next
      case (Cons p ps')
      with e have "cs = ps' @ sub @ ss" by simp
      then show ?thesis by blast
    qed
  next
    assume "(\<exists>ss. c # cs = sub @ ss) \<or> (\<exists>ps ss. cs = ps @ sub @ ss)"
    then show "\<exists>ps ss. c # cs = ps @ sub @ ss"
    proof
      assume "\<exists>ss. c # cs = sub @ ss"
      then obtain ss where "c # cs = [] @ sub @ ss" by auto
      then show ?thesis by blast
    next
      assume "\<exists>ps ss. cs = ps @ sub @ ss"
      then obtain ps ss where "c # cs = (c # ps) @ sub @ ss" by auto
      then show ?thesis by blast
    qed
  qed
  ultimately show ?case using Cons.IH by simp
qed

lemma guessExtension_find:
  "guessExtensionFromUrl url =
     (case find (\<lambda>e. includesStr (toLowerCase url) (''.'' @ e)) knownExtensions of
        None \<Rightarrow> ''jpg'' | Some e \<Rightarrow> e)"
proof -
  have nil: "\<not> includesStr (toLowerCase []) (CHR ''.'' # e)" for e
    by (simp add: toLowerCase_def)
  show ?thesis
    using nil by (simp add: guessExtensionFromUrl_def knownExtensions_def Let_def)
qed

text \<open>
  C10. The extensions \<open>guessExtensionFromUrl\<close> looks for are, in this order, \<open>png\<close>,
  \<open>gif\<close>, \<open>webp\<close>, \<open>svg\<close>, \<open>bmp\<close>, \<open>mp4\<close>, \<open>webm\<close>, \<open>mov\<close>, \<open>avi\<close>. An
  extension occurs in a URL when the lower-cased URL contains a dot followed by the
  extension, anywhere (also inside the query string, and whatever follows it).
  \<open>guessExtensionFromUrl\<close> returns the first extension of the list that occurs in the
  URL. When none occurs (the empty URL included) it returns \<open>jpg\<close>, and
  \<open>generateFilename\<close> builds \<open>media_{timestamp}_{random}.jpg\<close>.
\<close>

theorem guessExtension_substring_priority:
  "knownExtensions = [''png'', ''gif'', ''webp'', ''svg'', ''bmp'', ''mp4'', ''webm'', ''mov'', ''avi'']
   \<and> (\<forall>i < length knownExtensions.
         (\<exists>ps ss. toLowerCase url = ps @ ''.'' @ knownExtensions ! i @ ss)
         \<and> (\<forall>j < i. \<not> (\<exists>ps ss. toLowerCase url = ps @ ''.'' @ knownExtensions ! j @ ss))
         \<longrightarrow> guessExtensionFromUrl url = knownExtensions ! i)
   \<and> ((\<forall>e \<in> set knownExtensions. \<not> (\<exists>ps ss. toLowerCase url = ps @ ''.'' @ e @ ss)) \<longrightarrow>
        guessExtensionFromUrl url = ''jpg''
        \<and> generateFilename timestamp random url
            = ''media_'' @ showNat timestamp @ ''_'' @ random @ ''.jpg'')"
proof -
  let ?P = "\<lambda>e. includesStr (toLowerCase url) (''.'' @ e)"
  have P: "?P e \<longleftrightarrow> (\<exists>ps ss. toLowerCase url = ps @ ''.'' @ e @ ss)" for e
    by (simp add: includesStr_iff)
  have 1: "guessExtensionFromUrl url = knownExtensions ! i"
    if "i < length knownExtensions"
      and "\<exists>ps ss. toLowerCase url = ps @ ''.'' @ knownExtensions ! i @ ss"
      and "\<forall>j < i. \<not> (\<exists>ps ss. toLowerCase url = ps @ ''.'' @ knownExtensions ! j @ ss)" for i
  proof -
    from that(2) have "?P (knownExtensions ! i)" by (simp only: P)
    moreover from that(3) have "\<forall>j < i. \<not> ?P (knownExtensions ! j)" by (simp only: P)
    ultimately have "find ?P knownExtensions = Some (knownExtensions ! i)"
      using that(1) by (subst find_Some_iff) blast
    then show ?thesis by (simp add: guessExtension_find)
  qed
  have 2: "guessExtensionFromUrl url = ''jpg''"
    if "\<forall>e \<in> set knownExtensions. \<not> (\<exists>ps ss. toLowerCase url = ps @ ''.'' @ e @ ss)"
  proof -
    from that have "\<forall>e \<in> set knownExtensions. \<not> ?P e" by (simp only: P)
    then have "find ?P knownExtensions = None" by (simp add: find_None_iff)
    then show ?thesis by (simp add: guessExtension_find)
  qed
  have 3: "knownExtensions = [''png'', ''gif'', ''webp'', ''svg'', ''bmp'', ''mp4'', ''webm'', ''mov'', ''avi'']"
    by (simp add: knownExtensions_def)
  from 1 2 3 show ?thesis by (simp add: generateFilename_def)
qed

theorem guessExtension_substring_priority_witness:
  "toLowerCase ''https://example.com/a.jpg?format=.PNG&v=.gif''
     = ''https://example.com/a.jpg?format='' @ ''.png'' @ ''&v=.gif''
   \<and> guessExtensionFromUrl ''https://example.com/a.jpg?format=.PNG&v=.gif'' = ''png''
   \<and> toLowerCase ''https://example.com/Clip.MP4?thumb=x.GIF''
     = ''https://example.com/clip.mp4?thumb=x'' @ ''.gif'' @ []
   \<and> \<not> includesStr (toLowerCase ''https://example.com/Clip.MP4?thumb=x.GIF'') ''.png''
   \<and> guessExtensionFromUrl ''https://example.com/Clip.MP4?thumb=x.GIF'' = ''gif''
   \<and> list_all (\<lambda>e. \<not> includesStr (toLowerCase ''https://cdn.example.com/Photo?id=7'') (''.'' @ e))
       knownExtensions
   \<and> guessExtensionFromUrl ''https://cdn.example.com/Photo?id=7'' = ''jpg''
   \<and> generateFilename 17 ''k3x9'' ''https://cdn.example.com/Photo?id=7'' = ''media_17_k3x9.jpg''"
proof -
  let ?a = "''https://example.com/a.jpg?format=.PNG&v=.gif''"
  let ?b = "''https://example.com/Clip.MP4?thumb=x.GIF''"
  let ?u = "''https://cdn.example.com/Photo?id=7''"
  have len: "0 < length knownExtensions" "1 < length knownExtensions"
    and nth: "knownExtensions ! 0 = ''png''" "knownExtensions ! 1 = ''gif''"
    by (simp_all add: knownExtensions_def)
  have la: "toLowerCase ?a = ''https://example.com/a.jpg?format='' @ ''.png'' @ ''&v=.gif''"
    by (simp add: toLowerCase_def lowerChar_def upperLetters_def lowerLetters_def)
  then have ea: "\<exists>ps ss. toLowerCase ?a = ps @ ''.'' @ knownExtensions ! 0 @ ss"
    unfolding nth
    by (intro exI [of _ "''https://example.com/a.jpg?format=''"] exI [of _ "''&v=.gif''"]) simp
  from guessExtension_substring_priority [of ?a 0 "[]"]
  have "\<forall>i < length knownExtensions.
         (\<exists>ps ss. toLowerCase ?a = ps @ ''.'' @ knownExtensions ! i @ ss)
         \<and> (\<forall>j < i. \<not> (\<exists>ps ss. toLowerCase ?a = ps @ ''.'' @ knownExtensions ! j @ ss))
         \<longrightarrow> guessExtensionFromUrl ?a = knownExtensions ! i"
    by blast
  with len(1) ea have "guessExtensionFromUrl ?a = knownExtensions ! 0" by blast
  then have ga: "guessExtensionFromUrl ?a = ''png''" by (simp only: nth)
  have lb: "toLowerCase ?b = ''https://example.com/clip.mp4?thumb=x'' @ ''.gif'' @ []"
    by (simp add: toLowerCase_def lowerChar_def upperLetters_def lowerLetters_def)
  then have eb: "\<exists>ps ss. toLowerCase ?b = ps @ ''.'' @ knownExtensions ! 1 @ ss"
    unfolding nth
    by (intro exI [of _ "''https://example.com/clip.mp4?thumb=x''"] exI [of _ "[]"]) simp
  have nb: "\<not> includesStr (toLowerCase ?b) ''.png''"
    by (simp add: toLowerCase_def lowerChar_def upperLetters_def lowerLetters_def startsWith_def)
  have "\<not> (\<exists>ps ss. toLowerCase ?b = ps @ ''.'' @ knownExtensions ! 0 @ ss)"
    using nb unfolding nth includesStr_iff by simp
  then have fb: "\<forall>j < (1::nat). \<not> (\<exists>ps ss. toLowerCase ?b = ps @ ''.'' @ knownExtensions ! j @ ss)"
    by (simp only: less_one) blast
  from guessExtension_substring_priority [of ?b 0 "[]"]
  have "\<forall>i < length knownExtensions.
         (\<exists>ps ss. toLowerCase ?b = ps @ ''.'' @ knownExtensions ! i @ ss)
         \<and> (\<forall>j < i. \<not> (\<exists>ps ss. toLowerCase ?b = ps @ ''.'' @ knownExtensions ! j @ ss))
         \<longrightarrow> guessExtensionFromUrl ?b = knownExtensions ! i"
    by blast
  with len(2) eb fb have "guessExtensionFromUrl ?b = knownExtensions ! 1" by blast
  then have gb: "guessExtensionFromUrl ?b = ''gif''" by (simp only: nth)
  have h: "\<forall>e \<in> set knownExtensions. \<not> includesStr (toLowerCase ?u) (''.'' @ e)"
    by (simp add: knownExtensions_def toLowerCase_def lowerChar_def upperLetters_def lowerLetters_def startsWith_def)
  then have h': "\<forall>e \<in> set knownExtensions. \<not> (\<exists>ps ss. toLowerCase ?u = ps @ ''.'' @ e @ ss)"
    by (simp add: includesStr_iff)
  have n: "showNat 17 = ''17''"
    by (simp add: showNat.simps digitChar_def)
  from guessExtension_substring_priority [of ?u 17 "''k3x9''"]
  have "(\<forall>e \<in> set knownExtensions. \<not> (\<exists>ps ss. toLowerCase ?u = ps @ ''.'' @ e @ ss)) \<longrightarrow>
        guessExtensionFromUrl ?u = ''jpg''
        \<and> generateFilename 17 ''k3x9'' ?u = ''media_'' @ showNat 17 @ ''_'' @ ''k3x9'' @ ''.jpg''"
    by blast
  with h' have gu: "guessExtensionFromUrl ?u = ''jpg''"
        "generateFilename 17 ''k3x9'' ?u = ''media_'' @ showNat 17 @ ''_'' @ ''k3x9'' @ ''.jpg''"
    by blast+
  have gu2: "generateFilename 17 ''k3x9'' ?u = ''media_17_k3x9.jpg''"
    using gu(2) n by simp
  have hl: "list_all (\<lambda>e. \<not> includesStr (toLowerCase ?u) (''.'' @ e)) knownExtensions"
    using h by (simp only: list_all_iff)
  from la ga lb nb gb hl gu(1) gu2 show ?thesis by (intro conjI)
qed

subsection \<open>The re-entrancy guard of the queue\<close>

text \<open>
  C6. A call of \<open>process()\<close> on a queue whose \<open>isProcessing\<close> flag is set throws the
  error \<open>Queue is already being processed\<close> and leaves the pending queue, the
  results, the current download and the flag as they were; it makes no request.
\<close>

theorem process_rejects_reentry:
  "isProcessing q \<Longrightarrow> process env (q, w) = (Inl ''Queue is already being processed'', q, w)"
  by (simp add: process_def)

theorem process_rejects_reentry_witness:
  "isProcessing busyQueue
   \<and> process (\<lambda>n. Complete n) (busyQueue, \<lparr>requests = [], sleeps = []\<rparr>)
       = (Inl ''Queue is already being processed'', busyQueue, \<lparr>requests = [], sleeps = []\<rparr>)"
proof -
  have h: "isProcessing busyQueue" by (simp add: busyQueue_def)
  from process_rejects_reentry [OF h] h show ?thesis by simp
qed

subsection \<open>Absolute URLs\<close>

lemma dropWhile_append_length: "length (dropWhile P ys) \<le> length (dropWhile P (xs @ ys))"
  using length_dropWhile_le [of P ys] by (induction xs) auto

lemma startsWith_appendI:
  assumes "startsWith s p"
  shows "startsWith (s @ t) p"
proof -
  from assms have a: "take (length p) s = p" by (simp add: startsWith_def)
  then have "length (take (length p) s) = length p" by simp
  then have "length p \<le> length s" by simp
  with a show ?thesis by (simp add: startsWith_def)
qed

lemma startsWith_append: "startsWith (p @ r) p"
  by (simp add: startsWith_def)

lemma startsWith_decompose: "startsWith s p \<Longrightarrow> \<exists>r. s = p @ r"
  unfolding startsWith_def by (metis append_take_drop_id)

lemma base_keeps_scheme:
  assumes "startsWith h p" and "p \<noteq> []" and "last p = CHR ''/''"
  shows "startsWith (substring h 0 (lastIndexOf h CHR ''/'' + 1) @ u) p"
proof -
  from assms(1) obtain r where h: "h = p @ r" using startsWith_decompose by blast
  have "rev h = rev r @ rev p" by (simp add: h)
  moreover have "dropWhile (\<lambda>x. x \<noteq> CHR ''/'') (rev p) = rev p"
    using assms(2,3) by (cases p rule: rev_cases) auto
  ultimately have "length p \<le> length (dropWhile (\<lambda>x. x \<noteq> CHR ''/'') (rev h))"
    using dropWhile_append_length [of "\<lambda>x. x \<noteq> CHR ''/''" "rev p" "rev r"] by simp
  then have "length p \<le> nat (lastIndexOf h CHR ''/'' + 1)"
    by (simp add: lastIndexOf_def)
  then show ?thesis
    by (simp add: substring_def startsWith_def h)
qed

text \<open>
  C7, as amended. On a page whose location is an \<open>http\<close> or \<open>https\<close> URL,
  \<open>makeAbsoluteUrl\<close> is idempotent: every result it builds starts with one of the
  two schemes it passes through unchanged.
\<close>

theorem makeAbsoluteUrl_idempotent_http:
  assumes "isHttpLocation loc"
  shows "makeAbsoluteUrl loc (makeAbsoluteUrl loc url) = makeAbsoluteUrl loc url"
proof -
  have abs: "startsWith u ''http://'' \<or> startsWith u ''https://'' \<Longrightarrow> makeAbsoluteUrl loc u = u" for u
    by (auto simp: makeAbsoluteUrl_def)
  have "url = [] \<or> startsWith (makeAbsoluteUrl loc url) ''http://''
        \<or> startsWith (makeAbsoluteUrl loc url) ''https://''"
  proof (cases "url = [] \<or> startsWith url ''http://'' \<or> startsWith url ''https://''")
    case True
    then show ?thesis by (auto simp: makeAbsoluteUrl_def)
  next
    case False
    show ?thesis
    proof (cases "startsWith url ''//''")
      case True
      then obtain r where "url = ''//'' @ r" using startsWith_decompose by blast
      with False assms show ?thesis
        by (auto simp: makeAbsoluteUrl_def isHttpLocation_def startsWith_def)
    next
      case nopr: False
      show ?thesis
      proof (cases "startsWith url ''/''")
        case True
        have "startsWith (origin loc @ url) ''http://'' \<or> startsWith (origin loc @ url) ''https://''"
          using assms by (auto simp: isHttpLocation_def intro: startsWith_appendI)
        with False nopr True show ?thesis by (simp add: makeAbsoluteUrl_def)
      next
        case norel: False
        have "startsWith (substring (href loc) 0 (lastIndexOf (href loc) CHR ''/'' + 1) @ url) ''http://''
           \<or> startsWith (substring (href loc) 0 (lastIndexOf (href loc) CHR ''/'' + 1) @ url) ''https://''"
          using assms base_keeps_scheme [of "href loc" "''http://''" url]
            base_keeps_scheme [of "href loc" "''https://''" url]
          by (auto simp: isHttpLocation_def)
        with False nopr norel show ?thesis by (simp add: makeAbsoluteUrl_def Let_def)
      qed
    qed
  qed
  then show ?thesis
  proof (elim disjE)
    assume "url = []"
    then show ?thesis by (simp add: makeAbsoluteUrl_def)
  next
    assume "startsWith (makeAbsoluteUrl loc url) ''http://''"
    then show ?thesis using abs by blast
  next
    assume "startsWith (makeAbsoluteUrl loc url) ''https://''"
    then show ?thesis using abs by blast
  qed
qed

text \<open>
  C7 as stated fails on a page loaded from a file: the result of resolving a relative
  path is not recognised as absolute, and the base is put in front of it again.
\<close>

theorem makeAbsoluteUrl_not_idempotent:
  "makeAbsoluteUrl fixturePage (makeAbsoluteUrl fixturePage ''img.png'')
     \<noteq> makeAbsoluteUrl fixturePage ''img.png''"
proof -
  have v: "makeAbsoluteUrl fixturePage ''img.png'' = ''file:///fixtures/img.png''"
    by (simp add: makeAbsoluteUrl_def fixturePage_def startsWith_def substring_def lastIndexOf_def)
  have "makeAbsoluteUrl fixturePage ''file:///fixtures/img.png''
          = ''file:///fixtures/file:///fixtures/img.png''"
    by (simp add: makeAbsoluteUrl_def fixturePage_def startsWith_def substring_def lastIndexOf_def)
  with v show ?thesis by simp
qed

theorem makeAbsoluteUrl_idempotent_http_witness:
  "isHttpLocation examplePage
   \<and> makeAbsoluteUrl examplePage ''images/photo.jpg'' = ''https://example.com/page/images/photo.jpg''
   \<and> makeAbsoluteUrl examplePage (makeAbsoluteUrl examplePage ''images/photo.jpg'')
       = makeAbsoluteUrl examplePage ''images/photo.jpg''"
proof -
  have h: "isHttpLocation examplePage"
    by (simp add: isHttpLocation_def examplePage_def startsWith_def)
  have v: "makeAbsoluteUrl examplePage ''images/photo.jpg'' = ''https://example.com/page/images/photo.jpg''"
    by (simp add: makeAbsoluteUrl_def examplePage_def startsWith_def substring_def lastIndexOf_def)
  from makeAbsoluteUrl_idempotent_http [OF h, of "''images/photo.jpg''"] h v show ?thesis by simp
qed

subsection \<open>The score of a hero candidate\<close>

lemma viewportBonusVisible_value: "viewportBonusVisible = 3 / 2"
  by code_simp

lemma qualityBonusHD_value: "qualityBonusHD = 5854679515581645 / 4503599627370496"
  by code_simp

lemma other_bonus_values:
  "viewportBonusPartial = 5404319552844595 / 4503599627370496"
  "qualityBonusSD = 2476979795053773 / 2251799813685248"
  by code_simp+

lemma area_2000_1000: "fmul 2000 1000 = 2000000"
  by code_simp

lemma score_steps: "fmul (fmul 2000000 (3 / 2)) (5854679515581645 / 4503599627370496) = 3900000"
  by code_simp

lemma area_is_product:
  "sz_area (calculateElementSize e)
     = fmul (sz_width (calculateElementSize e)) (sz_height (calculateElementSize e))"
  by (simp add: calculateElementSize_def Let_def)

text \<open>
  C8. An element whose size is measured as 2000 by 1000 and which lies fully in the
  viewport has area 2,000,000, viewport bonus 1.5 and the quality bonus of the band
  above 1920, and its score, computed in floating point as
  \<open>(area * viewportBonus) * qualityBonus\<close>, is exactly 3,900,000.
\<close>

theorem heroScore_2000_1000_fully:
  assumes "sz_width (calculateElementSize e) = 2000"
    and "sz_height (calculateElementSize e) = 1000"
    and "getViewportVisibility doc e = Fully"
  shows "sz_area (calculateElementSize e) = 2000000
     \<and> calculateViewportBonus doc e = 3 / 2
     \<and> calculateQualityBonus (sz_width (calculateElementSize e)) = qualityBonusHD
     \<and> heroScore doc e = 3900000"
proof -
  have a: "sz_area (calculateElementSize e) = 2000000"
    using area_is_product [of e] assms(1,2) by (simp add: area_2000_1000)
  have v: "calculateViewportBonus doc e = 3 / 2"
    unfolding calculateViewportBonus_def assms(3) by (simp only: visibility_class.case viewportBonusVisible_value)
  have q: "calculateQualityBonus (sz_width (calculateElementSize e)) = qualityBonusHD"
    unfolding calculateQualityBonus_def assms(1) by simp
  have "heroScore doc e = fmul (fmul 2000000 (3 / 2)) qualityBonusHD"
    unfolding heroScore_def Let_def by (simp only: a v q)
  then have s: "heroScore doc e = 3900000"
    by (simp only: qualityBonusHD_value score_steps)
  from a v q s show ?thesis by (intro conjI)
qed

theorem heroScore_2000_1000_fully_witness:
  "sz_width (calculateElementSize heroImage2000) = 2000
   \<and> sz_height (calculateElementSize heroImage2000) = 1000
   \<and> getViewportVisibility (desktopPage [heroImage2000]) heroImage2000 = Fully
   \<and> heroScore (desktopPage [heroImage2000]) heroImage2000 = 3900000"
proof -
  have i: "isImg heroImage2000"
    by (simp add: isImg_def heroImage2000_def toLowerCase_def lowerChar_def upperLetters_def lowerLetters_def)
  have w: "sz_width (calculateElementSize heroImage2000) = 2000"
    and h: "sz_height (calculateElementSize heroImage2000) = 1000"
    using i by (simp_all add: calculateElementSize_def) (simp_all add: heroImage2000_def)
  have f: "getViewportVisibility (desktopPage [heroImage2000]) heroImage2000 = Fully"
    by (simp add: getViewportVisibility_def desktopPage_def heroImage2000_def)
  from heroScore_2000_1000_fully [OF w h f] have "heroScore (desktopPage [heroImage2000]) heroImage2000 = 3900000"
    by (elim conjE)
  with w h f show ?thesis by (intro conjI)
qed

subsection \<open>The widest source of a srcset\<close>

lemma sortDesc_Nil: "sortDesc key [] = []"
  by (simp add: sortDesc_def)

lemma sortDesc_Cons: "sortDesc key (x # xs) = insertDesc key x (sortDesc key xs)"
  by (simp add: sortDesc_def)

lemma set_insertDesc: "set (insertDesc key x ys) = insert x (set ys)"
  by (induction ys) auto

lemma length_insertDesc: "length (insertDesc key x ys) = Suc (length ys)"
  by (induction ys) auto

lemma length_sortDesc: "length (sortDesc key xs) = length xs"
  by (induction xs) (simp_all add: sortDesc_Nil sortDesc_Cons length_insertDesc)

lemma set_sortDesc: "set (sortDesc key xs) = set xs"
  by (induction xs) (simp_all add: sortDesc_Nil sortDesc_Cons set_insertDesc)

lemma sorted_insertDesc:
  "sorted_wrt (\<lambda>a b. key b \<le> key a) ys \<Longrightarrow> sorted_wrt (\<lambda>a b. key b \<le> key a) (insertDesc key x ys)"
proof (induction ys)
  case Nil
  then show ?case by simp
next
  case (Cons y ys)
  show ?case
  proof (cases "key y \<le> key x")
    case True
    with Cons.prems show ?thesis by (auto intro: order_trans)
  next
    case False
    with Cons show ?thesis by (auto simp: set_insertDesc)
  qed
qed

lemma sortDesc_descending: "sorted_wrt (\<lambda>a b. key b \<le> key a) (sortDesc key xs)"
  by (induction xs) (simp_all add: sortDesc_Nil sortDesc_Cons sorted_insertDesc)

lemma filter_insertDesc:
  "filter (\<lambda>y. key y = k) (insertDesc key x ys)
     = (if key x = k then x # filter (\<lambda>y. key y = k) ys else filter (\<lambda>y. key y = k) ys)"
  by (induction ys) auto

lemma sortDesc_stable: "filter (\<lambda>y. key y = k) (sortDesc key xs) = filter (\<lambda>y. key y = k) xs"
  by (induction xs) (simp_all add: sortDesc_Nil sortDesc_Cons filter_insertDesc)

lemma head_sortDesc:
  "(case sortDesc key xs of [] \<Rightarrow> None | s # _ \<Rightarrow> Some s) = firstMax key xs"
proof (induction xs)
  case Nil
  then show ?case by (simp add: sortDesc_Nil)
next
  case (Cons x xs)
  show ?case
  proof (cases "sortDesc key xs")
    case Nil
    with Cons.IH have "firstMax key xs = None" by simp
    then show ?thesis by (simp add: sortDesc_Cons Nil)
  next
    case sorted: (Cons a rest)
    with Cons.IH have "firstMax key xs = Some a" by simp
    then show ?thesis by (simp add: sortDesc_Cons sorted)
  qed
qed

lemma firstMax_None: "firstMax key xs = None \<longleftrightarrow> xs = []"
  by (cases xs) (auto split: option.splits)

lemma firstMax_first_widest:
  "firstMax key xs = Some m \<Longrightarrow>
     \<exists>i<length xs. xs ! i = m \<and> (\<forall>j<length xs. key (xs ! j) \<le> key m)
        \<and> (\<forall>j<i. key (xs ! j) < key m)"
proof (induction xs arbitrary: m)
  case Nil
  then show ?case by simp
next
  case (Cons x xs)
  show ?case
  proof (cases "firstMax key xs")
    case None
    then have "xs = []" by (simp add: firstMax_None)
    with Cons.prems show ?thesis by simp
  next
    case (Some y)
    from Cons.IH [OF Some] obtain i where i: "i < length xs" "xs ! i = y"
      "\<forall>j<length xs. key (xs ! j) \<le> key y" "\<forall>j<i. key (xs ! j) < key y"
      by blast
    show ?thesis
    proof (cases "key y \<le> key x")
      case True
      with Some Cons.prems have m: "m = x" by simp
      have "key ((x # xs) ! j) \<le> key x" if "j < length (x # xs)" for j
      proof (cases j)
        case 0
        then show ?thesis by simp
      next
        case (Suc j')
        with that i(3) have "key (xs ! j') \<le> key y" by simp
        with True show ?thesis by (simp add: Suc)
      qed
      with m show ?thesis by (intro exI [of _ 0]) simp
    next
      case False
      with Some Cons.prems have m: "m = y" by simp
      have "\<forall>j<length (x # xs). key ((x # xs) ! j) \<le> key y"
        using i(3) False by (auto simp: nth_Cons')
      moreover have "\<forall>j<Suc i. key ((x # xs) ! j) < key y"
        using i(4) False by (auto simp: nth_Cons')
      ultimately show ?thesis
        using m i(1,2) by (intro exI [of _ "Suc i"]) simp
    qed
  qed
qed

lemma parseSrcset_nonempty: "parseSrcset t \<noteq> []"
  by (cases t) (auto simp: parseSrcset_def split: list.splits)

lemma getHighestResolution_firstMax:
  "t \<noteq> [] \<Longrightarrow> getHighestResolutionFromSrcset t =
     (case firstMax s_width (parseSrcset t) of
        None \<Rightarrow> None
      | Some s \<Rightarrow> if s_url s = [] then None else Some (s_url s))"
  using head_sortDesc [of s_width "parseSrcset t"]
  by (auto simp: getHighestResolutionFromSrcset_def Let_def split: list.splits option.splits)

lemma widthMatch_iff:
  "widthMatch d = Some ds \<longleftrightarrow> d = ds @ ''w'' \<and> ds \<noteq> [] \<and> list_all isDigit ds"
proof (cases d rule: rev_cases)
  case Nil
  then show ?thesis by (simp add: widthMatch_def)
next
  case (snoc body c)
  then show ?thesis by (auto simp: widthMatch_def)
qed

lemma parseSource_width:
  "s_width (parseSource piece) =
     (case widthMatch (descriptorOf piece) of None \<Rightarrow> 0 | Some ds \<Rightarrow> parseInt10 ds)"
  by (simp add: parseSource_def descriptorOf_def Let_def)

lemma first_widest_as_numbers:
  assumes "srcset_text \<noteq> []"
  shows "\<exists>i < length (parseSrcset srcset_text).
            (\<forall>j < length (parseSrcset srcset_text).
                s_width (parseSrcset srcset_text ! j) \<le> s_width (parseSrcset srcset_text ! i))
          \<and> (\<forall>j < i. s_width (parseSrcset srcset_text ! j) < s_width (parseSrcset srcset_text ! i))
          \<and> getHighestResolutionFromSrcset srcset_text =
               (if s_url (parseSrcset srcset_text ! i) = [] then None
                else Some (s_url (parseSrcset srcset_text ! i)))"
proof -
  let ?es = "parseSrcset srcset_text"
  obtain m where m: "firstMax s_width ?es = Some m"
    using parseSrcset_nonempty [of srcset_text] firstMax_None [of s_width ?es]
    by (cases "firstMax s_width ?es") auto
  from firstMax_first_widest [OF m] obtain i where i: "i < length ?es" "?es ! i = m"
    "\<forall>j<length ?es. s_width (?es ! j) \<le> s_width m" "\<forall>j<i. s_width (?es ! j) < s_width m"
    by blast
  have "getHighestResolutionFromSrcset srcset_text = (if s_url m = [] then None else Some (s_url m))"
    using getHighestResolution_firstMax [OF assms] m by simp
  with i show ?thesis by (intro exI [of _ i]) simp
qed

lemma log2floor_bounds:
  "1 \<le> n \<Longrightarrow>
     0 \<le> log2floor n \<and> 2 ^ nat (log2floor n) \<le> n \<and> n < 2 * 2 ^ nat (log2floor n)"
proof (induction n rule: log2floor.induct)
  case (1 n)
  show ?case
  proof (cases "n < 2")
    case True
    with "1.prems" have "n = 1" by simp
    then show ?thesis by (simp add: log2floor.simps)
  next
    case False
    then have h: "1 \<le> n div 2" by simp
    define p :: int where "p = 2 ^ nat (log2floor (n div 2))"
    from "1.IH" [OF False h] have ih: "0 \<le> log2floor (n div 2)" "p \<le> n div 2" "n div 2 < 2 * p"
      by (simp_all add: p_def)
    have l: "log2floor n = 1 + log2floor (n div 2)"
      using False by (subst log2floor.simps) simp
    have k: "nat (1 + log2floor (n div 2)) = Suc (nat (log2floor (n div 2)))"
      using ih(1) by simp
    have "2 * p \<le> n" "n < 2 * (2 * p)" using ih(2,3) by linarith+
    then show ?thesis unfolding l k using ih(1) by (simp add: p_def)
  qed
qed

lemma roundEven_of_int: "roundEven (of_int m) = m"
  by (simp add: roundEven_def)

lemma pow2_nonzero: "pow2 e \<noteq> 0"
  by (simp add: pow2_def)

lemma round53_of_scaled:
  assumes "0 < x" and "x / pow2 (ilog2 x - 52) = of_int m"
  shows "round53 x = x"
proof -
  have "round53 x = of_int m * pow2 (ilog2 x - 52)"
    using assms by (simp add: round53_def Let_def roundEven_of_int)
  also have "\<dots> = x"
    using assms(2) [symmetric] pow2_nonzero [of "ilog2 x - 52"] by simp
  finally show ?thesis .
qed

lemma round53_exact:
  assumes "0 \<le> n" and "n \<le> 2 ^ 53"
  shows "round53 (of_int n) = of_int n"
proof (cases "n = 0")
  case True
  then show ?thesis by (simp add: round53_def)
next
  case False
  with assms(1) have one: "1 \<le> n" by simp
  define k where "k = log2floor n"
  from log2floor_bounds [OF one] have b: "0 \<le> k" "2 ^ nat k \<le> n" "n < 2 * 2 ^ nat k"
    by (simp_all add: k_def)
  have il: "ilog2 (of_int n) = k"
    using one by (simp add: ilog2_def k_def)
  have pos: "0 < (of_int n :: rat)" using one by simp
  from b(2) assms(2) have "(2::int) ^ nat k \<le> 2 ^ 53" by (rule order_trans)
  then have "nat k \<le> 53" by (rule power_le_imp_le_exp [rotated]) simp
  with b(1) have k53: "k \<le> 53" by simp
  have "\<exists>m. (of_int n :: rat) / pow2 (k - 52) = of_int m"
  proof (cases "k = 53")
    case True
    with b(2) assms(2) have n: "n = 2 ^ 53" by simp
    have "(of_int n :: rat) / pow2 (k - 52) = of_int (2 ^ 52)"
      by (simp add: n True pow2_def)
    then show ?thesis by blast
  next
    case False
    with k53 have le: "k \<le> 52" by simp
    have "pow2 (k - 52) = 1 / 2 ^ nat (52 - k)"
    proof (cases "k = 52")
      case True
      then show ?thesis by (simp add: pow2_def)
    next
      case False
      with le have "k - 52 < 0" by simp
      then show ?thesis by (simp add: pow2_def)
    qed
    then have "(of_int n :: rat) / pow2 (k - 52) = of_int (n * 2 ^ nat (52 - k))"
      by simp
    then show ?thesis by blast
  qed
  then obtain m where "(of_int n :: rat) / pow2 (ilog2 (of_int n) - 52) = of_int m"
    unfolding il by blast
  with pos show ?thesis by (rule round53_of_scaled)
qed

lemma decimalValue_nonneg: "0 \<le> decimalValue ds"
proof -
  have "0 \<le> acc \<Longrightarrow> 0 \<le> foldl (\<lambda>acc c. 10 * acc + int (digitVal c)) acc ds" for acc
    by (induction ds arbitrary: acc) simp_all
  then show ?thesis by (simp add: decimalValue_def)
qed

lemma parseInt10_exact:
  assumes "decimalValue ds \<le> 2 ^ 53"
  shows "parseInt10 ds = of_int (decimalValue ds)"
proof -
  have "(of_int (decimalValue ds) :: rat) \<le> of_int (2 ^ 53)"
    using assms by (simp only: of_int_le_iff)
  also have "\<dots> \<le> 2 ^ 1024" by simp
  finally have "(of_int (decimalValue ds) :: rat) \<le> 2 ^ 1024" .
  then show ?thesis
    by (simp add: parseInt10_def round53_exact [OF decimalValue_nonneg assms])
qed

lemma parseSource_declared:
  assumes "declaredWidth piece \<le> 2 ^ 53"
  shows "s_width (parseSource piece) = of_int (declaredWidth piece)"
proof (cases "widthMatch (descriptorOf piece)")
  case None
  then show ?thesis by (simp add: parseSource_width declaredWidth_def)
next
  case (Some ds)
  with assms have "decimalValue ds \<le> 2 ^ 53" by (simp add: declaredWidth_def)
  then show ?thesis using Some by (simp add: parseSource_width declaredWidth_def parseInt10_exact)
qed

lemma parseSource_url: "s_url (parseSource piece) = urlOf piece"
  by (simp add: parseSource_def urlOf_def Let_def)

text \<open>
  C5, as amended. The entries of a srcset are its comma-separated pieces, each read as
  a URL and a descriptor; an entry declares the width its descriptor writes when the
  descriptor is digits followed by \<open>w\<close>, and 0 otherwise. For a non-empty srcset whose
  declared widths are at most \<open>2 ^ 53\<close>, \<open>getHighestResolutionFromSrcset\<close> returns the
  URL of the entry that declares the greatest width and comes before every other entry
  declaring it, and \<open>null\<close> when that URL is the empty string; \<open>extractImageUrl\<close> returns
  that URL made absolute, and falls back to \<open>src\<close> when it is empty.
\<close>

theorem getHighestResolution_first_widest:
  assumes "srcset_text \<noteq> []"
    and "\<forall>piece \<in> set (splitOn CHR '','' srcset_text). declaredWidth piece \<le> 2 ^ 53"
  shows "(\<exists>i < length (splitOn CHR '','' srcset_text).
            (\<forall>j < length (splitOn CHR '','' srcset_text).
                declaredWidth (splitOn CHR '','' srcset_text ! j)
                  \<le> declaredWidth (splitOn CHR '','' srcset_text ! i))
          \<and> (\<forall>j < i. declaredWidth (splitOn CHR '','' srcset_text ! j)
                  < declaredWidth (splitOn CHR '','' srcset_text ! i))
          \<and> getHighestResolutionFromSrcset srcset_text =
               (if urlOf (splitOn CHR '','' srcset_text ! i) = [] then None
                else Some (urlOf (splitOn CHR '','' srcset_text ! i)))
          \<and> (srcset img = srcset_text \<longrightarrow>
               extractImageUrl loc img =
                 (if urlOf (splitOn CHR '','' srcset_text ! i) \<noteq> []
                  then Some (makeAbsoluteUrl loc (urlOf (splitOn CHR '','' srcset_text ! i)))
                  else if src img \<noteq> [] then Some (makeAbsoluteUrl loc (src img))
                  else None)))
       \<and> (\<forall>piece. (\<forall>ds. descriptorOf piece \<noteq> ds @ ''w'' \<or> ds = [] \<or> \<not> list_all isDigit ds)
              \<longrightarrow> declaredWidth piece = 0 \<and> s_width (parseSource piece) = 0)
       \<and> (\<forall>piece ds. descriptorOf piece = ds @ ''w'' \<and> ds \<noteq> [] \<and> list_all isDigit ds
              \<longrightarrow> declaredWidth piece = decimalValue ds
                  \<and> s_width (parseSource piece) = parseInt10 ds)"
proof -
  let ?ps = "splitOn CHR '','' srcset_text"
  let ?es = "parseSrcset srcset_text"
  have es: "?es = map parseSource ?ps" by (simp add: parseSrcset_def)
  have w: "s_width (?es ! j) = of_int (declaredWidth (?ps ! j))" if "j < length ?ps" for j
  proof -
    from that have "?ps ! j \<in> set ?ps" by (rule nth_mem)
    with assms(2) have "declaredWidth (?ps ! j) \<le> 2 ^ 53" by blast
    then show ?thesis using that by (simp add: es parseSource_declared)
  qed
  have u: "s_url (?es ! j) = urlOf (?ps ! j)" if "j < length ?ps" for j
    using that by (simp add: es parseSource_url)
  from first_widest_as_numbers [OF assms(1)] obtain i where i: "i < length ?ps"
    "\<forall>j < length ?ps. s_width (?es ! j) \<le> s_width (?es ! i)"
    "\<forall>j < i. s_width (?es ! j) < s_width (?es ! i)"
    "getHighestResolutionFromSrcset srcset_text =
       (if s_url (?es ! i) = [] then None else Some (s_url (?es ! i)))"
    by (auto simp: es)
  have a: "\<forall>j < length ?ps. declaredWidth (?ps ! j) \<le> declaredWidth (?ps ! i)"
  proof (intro allI impI)
    fix j assume j: "j < length ?ps"
    with i(2) have "s_width (?es ! j) \<le> s_width (?es ! i)" by blast
    then show "declaredWidth (?ps ! j) \<le> declaredWidth (?ps ! i)"
      by (simp only: w [OF j] w [OF i(1)] of_int_le_iff)
  qed
  have b: "\<forall>j < i. declaredWidth (?ps ! j) < declaredWidth (?ps ! i)"
  proof (intro allI impI)
    fix j assume j: "j < i"
    with i(1) have jl: "j < length ?ps" by simp
    from i(3) j have "s_width (?es ! j) < s_width (?es ! i)" by blast
    then show "declaredWidth (?ps ! j) < declaredWidth (?ps ! i)"
      by (simp only: w [OF jl] w [OF i(1)] of_int_less_iff)
  qed
  have r: "getHighestResolutionFromSrcset srcset_text =
      (if urlOf (?ps ! i) = [] then None else Some (urlOf (?ps ! i)))"
    using i(4) by (simp only: u [OF i(1)])
  have e: "extractImageUrl loc img =
      (if urlOf (?ps ! i) \<noteq> [] then Some (makeAbsoluteUrl loc (urlOf (?ps ! i)))
       else if src img \<noteq> [] then Some (makeAbsoluteUrl loc (src img))
       else None)"
    if "srcset img = srcset_text"
    using that r assms(1) by (simp add: extractImageUrl_def)
  have first: "\<exists>i < length ?ps.
            (\<forall>j < length ?ps. declaredWidth (?ps ! j) \<le> declaredWidth (?ps ! i))
          \<and> (\<forall>j < i. declaredWidth (?ps ! j) < declaredWidth (?ps ! i))
          \<and> getHighestResolutionFromSrcset srcset_text =
               (if urlOf (?ps ! i) = [] then None else Some (urlOf (?ps ! i)))
          \<and> (srcset img = srcset_text \<longrightarrow>
               extractImageUrl loc img =
                 (if urlOf (?ps ! i) \<noteq> [] then Some (makeAbsoluteUrl loc (urlOf (?ps ! i)))
                  else if src img \<noteq> [] then Some (makeAbsoluteUrl loc (src img))
                  else None))"
    using i(1) a b r e by (intro exI [of _ i]) simp
  have zero: "declaredWidth piece = 0 \<and> s_width (parseSource piece) = 0"
    if "\<forall>ds. descriptorOf piece \<noteq> ds @ ''w'' \<or> ds = [] \<or> \<not> list_all isDigit ds" for piece
  proof -
    have "widthMatch (descriptorOf piece) = None"
    proof (cases "widthMatch (descriptorOf piece)")
      case None
      then show ?thesis .
    next
      case (Some ds)
      with that widthMatch_iff [of "descriptorOf piece" ds] show ?thesis by blast
    qed
    then show ?thesis by (simp add: parseSource_width declaredWidth_def)
  qed
  have num: "declaredWidth piece = decimalValue ds \<and> s_width (parseSource piece) = parseInt10 ds"
    if "descriptorOf piece = ds @ ''w'' \<and> ds \<noteq> [] \<and> list_all isDigit ds" for piece ds
  proof -
    from that have "widthMatch (descriptorOf piece) = Some ds"
      using widthMatch_iff [of "descriptorOf piece" ds] by blast
    then show ?thesis by (simp add: parseSource_width declaredWidth_def)
  qed
  from first zero num show ?thesis by blast
qed

lemma exampleSrcset_pieces:
  "splitOn CHR '','' exampleSrcset =
     [''small.jpg 320w'', '' large.jpg 1280w'', '' other.jpg 1280w'', '' plain.jpg'',
      '' odd.jpg 2x'']"
  by (simp add: exampleSrcset_def)

lemma exampleSrcset_declared:
  "declaredWidth ''small.jpg 320w'' = 320" "declaredWidth '' large.jpg 1280w'' = 1280"
  "declaredWidth '' other.jpg 1280w'' = 1280" "declaredWidth '' plain.jpg'' = 0"
  "declaredWidth '' odd.jpg 2x'' = 0"
  by (simp_all add: declaredWidth_def descriptorOf_def trim_def isSpace_def widthMatch_def
      isDigit_def decimalValue_def digitVal_def)

lemma exampleSrcset_urls:
  "urlOf '' large.jpg 1280w'' = ''large.jpg''"
  by (simp add: urlOf_def trim_def isSpace_def)

theorem getHighestResolution_first_widest_witness:
  "exampleSrcset \<noteq> []
   \<and> list_all (\<lambda>piece. declaredWidth piece \<le> 2 ^ 53) (splitOn CHR '','' exampleSrcset)
   \<and> getHighestResolutionFromSrcset exampleSrcset = Some ''large.jpg''
   \<and> extractImageUrl examplePage (srcsetImage exampleSrcset ''small.jpg'')
       = Some ''https://example.com/page/large.jpg''"
proof -
  let ?ps = "splitOn CHR '','' exampleSrcset"
  let ?img = "srcsetImage exampleSrcset ''small.jpg''"
  have ne: "exampleSrcset \<noteq> []" by (simp add: exampleSrcset_def)
  have bound: "\<forall>piece \<in> set ?ps. declaredWidth piece \<le> 2 ^ 53"
    by (simp add: exampleSrcset_pieces exampleSrcset_declared)
  have s: "srcset ?img = exampleSrcset"
    by (simp add: srcset_def srcsetImage_def)
  have a: "makeAbsoluteUrl examplePage ''large.jpg'' = ''https://example.com/page/large.jpg''"
    by (simp add: makeAbsoluteUrl_def examplePage_def startsWith_def substring_def lastIndexOf_def)
  have len: "length ?ps = 5" by (simp add: exampleSrcset_pieces)
  from getHighestResolution_first_widest [OF ne bound, of ?img examplePage]
  have "\<exists>i < length ?ps.
            (\<forall>j < length ?ps. declaredWidth (?ps ! j) \<le> declaredWidth (?ps ! i))
          \<and> (\<forall>j < i. declaredWidth (?ps ! j) < declaredWidth (?ps ! i))
          \<and> getHighestResolutionFromSrcset exampleSrcset =
               (if urlOf (?ps ! i) = [] then None else Some (urlOf (?ps ! i)))
          \<and> (srcset ?img = exampleSrcset \<longrightarrow>
               extractImageUrl examplePage ?img =
                 (if urlOf (?ps ! i) \<noteq> [] then Some (makeAbsoluteUrl examplePage (urlOf (?ps ! i)))
                  else if src ?img \<noteq> [] then Some (makeAbsoluteUrl examplePage (src ?img))
                  else None))"
    by (rule conjunct1)
  then obtain i where i: "i < length ?ps"
    "\<forall>j < length ?ps. declaredWidth (?ps ! j) \<le> declaredWidth (?ps ! i)"
    "\<forall>j < i. declaredWidth (?ps ! j) < declaredWidth (?ps ! i)"
    "getHighestResolutionFromSrcset exampleSrcset =
       (if urlOf (?ps ! i) = [] then None else Some (urlOf (?ps ! i)))"
    "srcset ?img = exampleSrcset \<longrightarrow>
       extractImageUrl examplePage ?img =
         (if urlOf (?ps ! i) \<noteq> [] then Some (makeAbsoluteUrl examplePage (urlOf (?ps ! i)))
          else if src ?img \<noteq> [] then Some (makeAbsoluteUrl examplePage (src ?img))
          else None)"
    by blast
  from i(1) len consider "i = 0" | "i = 1" | "i = 2" | "i = 3" | "i = 4" by linarith
  then have "i = 1"
  proof cases
    case 1
    with i(2) len have "declaredWidth (?ps ! 1) \<le> declaredWidth (?ps ! 0)" by simp
    then show ?thesis by (simp add: exampleSrcset_pieces exampleSrcset_declared)
  next
    case 2
    then show ?thesis .
  next
    case 3
    with i(3) have "declaredWidth (?ps ! 1) < declaredWidth (?ps ! 2)" by simp
    then show ?thesis by (simp add: exampleSrcset_pieces exampleSrcset_declared)
  next
    case 4
    with i(2) len have "declaredWidth (?ps ! 1) \<le> declaredWidth (?ps ! 3)" by simp
    then show ?thesis by (simp add: exampleSrcset_pieces exampleSrcset_declared)
  next
    case 5
    with i(2) len have "declaredWidth (?ps ! 1) \<le> declaredWidth (?ps ! 4)" by simp
    then show ?thesis by (simp add: exampleSrcset_pieces exampleSrcset_declared)
  qed
  with i(4,5) a s have "getHighestResolutionFromSrcset exampleSrcset = Some ''large.jpg''"
    "extractImageUrl examplePage ?img = Some ''https://example.com/page/large.jpg''"
    by (simp_all add: exampleSrcset_pieces exampleSrcset_urls)
  with ne bound show ?thesis by (simp add: list_all_iff)
qed

lemma round53_above_exact: "round53 9007199254740993 = 9007199254740992"
  by code_simp

lemma wideSrcset_entries:
  "parseSrcset wideSrcset =
     [\<lparr>s_url = ''a.jpg'', s_width = 9007199254740992\<rparr>,
      \<lparr>s_url = ''b.jpg'', s_width = 9007199254740992\<rparr>]"
proof -
  have d: "decimalValue ''9007199254740992'' = 9007199254740992"
    "decimalValue ''9007199254740993'' = 9007199254740993"
    by (simp_all add: decimalValue_def digitVal_def)
  have "parseInt10 ''9007199254740992'' = 9007199254740992"
    using parseInt10_exact [of "''9007199254740992''"] by (simp add: d)
  moreover have "parseInt10 ''9007199254740993'' = 9007199254740992"
    by (simp add: parseInt10_def d round53_above_exact)
  ultimately show ?thesis
    by (simp add: wideSrcset_def parseSrcset_def parseSource_def trim_def isSpace_def
        widthMatch_def isDigit_def)
qed

text \<open>
  C5 as stated fails in two ways. Declared widths above \<open>2 ^ 53\<close> are rounded when they
  are read, so an entry that declares less can tie with the later entry that declares
  the maximum, and is returned. And where the first widest entry has no URL, the
  result is \<open>null\<close> and \<open>extractImageUrl\<close> returns the \<open>src\<close>, not the URL of an entry.
\<close>

theorem getHighestResolution_not_widest:
  "splitOn CHR '','' wideSrcset = [''a.jpg 9007199254740992w'', '' b.jpg 9007199254740993w'']
   \<and> declaredWidth ''a.jpg 9007199254740992w'' = 9007199254740992
   \<and> declaredWidth '' b.jpg 9007199254740993w'' = 9007199254740993
   \<and> getHighestResolutionFromSrcset wideSrcset = Some ''a.jpg''
   \<and> splitOn CHR '','' '',a.jpg'' = [[], ''a.jpg'']
   \<and> getHighestResolutionFromSrcset '',a.jpg'' = None
   \<and> extractImageUrl examplePage (srcsetImage '',a.jpg'' ''small.jpg'')
       = Some ''https://example.com/page/small.jpg''"
proof -
  have p: "splitOn CHR '','' wideSrcset = [''a.jpg 9007199254740992w'', '' b.jpg 9007199254740993w'']"
    by (simp add: wideSrcset_def)
  have d: "declaredWidth ''a.jpg 9007199254740992w'' = 9007199254740992"
    "declaredWidth '' b.jpg 9007199254740993w'' = 9007199254740993"
    by (simp_all add: declaredWidth_def descriptorOf_def trim_def isSpace_def widthMatch_def
        isDigit_def decimalValue_def digitVal_def)
  have g: "getHighestResolutionFromSrcset wideSrcset = Some ''a.jpg''"
    by (simp add: getHighestResolutionFromSrcset_def wideSrcset_entries sortDesc_def)
      (simp add: wideSrcset_def)
  have n: "getHighestResolutionFromSrcset '',a.jpg'' = None"
    by (simp add: getHighestResolutionFromSrcset_def parseSrcset_def parseSource_def trim_def
        isSpace_def widthMatch_def sortDesc_def)
  have e: "extractImageUrl examplePage (srcsetImage '',a.jpg'' ''small.jpg'')
       = Some ''https://example.com/page/small.jpg''"
    by (simp add: extractImageUrl_def n)
      (simp add: srcset_def srcsetImage_def n makeAbsoluteUrl_def examplePage_def startsWith_def
        substring_def lastIndexOf_def)
  from p d g n e show ?thesis by simp
qed

subsection \<open>Retries of the download queue\<close>

lemma attemptDownload_failing:
  "failing (env (length (requests w))) \<Longrightarrow>
     attemptDownload env m w =
       (Inl (errorMessage (env (length (requests w)))),
        w\<lparr>requests := requests w @ [(m_url m, m_filename m)]\<rparr>)"
  by (cases "env (length (requests w))")
    (simp_all add: failing_def errorMessage_def attemptDownload_def downloadFile_def
      waitForDownload_def Let_def)

lemma attemptDownload_complete:
  "env (length (requests w)) = Complete i \<Longrightarrow>
     attemptDownload env m w =
       (Inr (completedResult m i), w\<lparr>requests := requests w @ [(m_url m, m_filename m)]\<rparr>)"
  by (simp add: attemptDownload_def downloadFile_def waitForDownload_def Let_def
      completedResult_def)

lemma attemptDownload_cases:
  "attemptDownload env m w =
     (if failing (env (length (requests w))) then Inl (errorMessage (env (length (requests w))))
      else Inr (completedResult m (case env (length (requests w)) of Complete i \<Rightarrow> i | _ \<Rightarrow> 0)),
      w\<lparr>requests := requests w @ [(m_url m, m_filename m)]\<rparr>)"
  by (cases "env (length (requests w))")
    (simp_all add: failing_def errorMessage_def attemptDownload_def downloadFile_def
      waitForDownload_def Let_def completedResult_def)

lemma downloadWithRetry_exhausts:
  assumes "attempt \<le> retryAttempts"
    and "\<forall>j \<le> retryAttempts - attempt. failing (env (length (requests w) + j))"
  shows "downloadWithRetry env attempt item w =
     (Inl (errorMessage (env (length (requests w) + (retryAttempts - attempt)))),
      item\<lparr>qi_retryCount := retryAttempts, qi_status := Downloading\<rparr>,
      \<lparr>requests = requests w @ replicate (Suc (retryAttempts - attempt)) (request item),
       sleeps = sleeps w @ map retryDelay [attempt..<retryAttempts]\<rparr>)"
  using assms
proof (induction "retryAttempts - attempt" arbitrary: attempt item w)
  case 0
  then have a: "attempt = retryAttempts" by simp
  from "0.prems"(2) have f: "failing (env (length (requests w)))" by auto
  show ?case
    by (subst downloadWithRetry.simps)
      (simp add: a attemptDownload_failing [where env = env and w = w, OF f] request_def)
next
  case (Suc n)
  then have lt: "attempt < retryAttempts" by simp
  from Suc.prems(2) have f: "failing (env (length (requests w)))" by auto
  let ?item1 = "item\<lparr>qi_retryCount := attempt, qi_status := Downloading\<rparr>"
  let ?w1 = "w\<lparr>requests := requests w @ [request item],
               sleeps := sleeps w @ [retryDelay attempt]\<rparr>"
  have n: "n = retryAttempts - (attempt + 1)" using Suc.hyps(2) by simp
  have le: "attempt + 1 \<le> retryAttempts" using lt by simp
  have fs: "\<forall>j \<le> retryAttempts - (attempt + 1). failing (env (length (requests ?w1) + j))"
  proof (intro allI impI)
    fix j assume "j \<le> retryAttempts - (attempt + 1)"
    then have "Suc j \<le> retryAttempts - attempt" using lt by simp
    with Suc.prems(2) have "failing (env (length (requests w) + Suc j))" by blast
    then show "failing (env (length (requests ?w1) + j))" by simp
  qed
  have step: "downloadWithRetry env attempt item w = downloadWithRetry env (attempt + 1) ?item1 ?w1"
    using lt by (subst downloadWithRetry.simps)
      (simp add: attemptDownload_failing [where env = env and w = w, OF f] request_def)
  have d: "retryAttempts - attempt = Suc (retryAttempts - (attempt + 1))"
    using lt by simp
  have sl: "[retryDelay attempt] @ map retryDelay [attempt + 1..<retryAttempts]
      = map retryDelay [attempt..<retryAttempts]"
    using lt by (simp add: upt_conv_Cons)
  have rq: "request ?item1 = request item" by (simp add: request_def)
  from Suc.hyps(1) [OF n le fs, of ?item1]
  have "downloadWithRetry env (attempt + 1) ?item1 ?w1 =
     (Inl (errorMessage (env (length (requests ?w1) + (retryAttempts - (attempt + 1))))),
      ?item1\<lparr>qi_retryCount := retryAttempts, qi_status := Downloading\<rparr>,
      \<lparr>requests = requests ?w1 @ replicate (Suc (retryAttempts - (attempt + 1))) (request item),
       sleeps = sleeps ?w1 @ map retryDelay [attempt + 1..<retryAttempts]\<rparr>)"
    by (simp only: rq)
  then show ?case
    unfolding step d using sl by (simp add: replicate_append_same)
qed

lemma downloadWithRetry_result:
  assumes "attempt \<le> retryAttempts"
  shows "fst (downloadWithRetry env attempt item w) = Inr r \<longrightarrow>
           (\<exists>i. r = Some (completedResult (qi_media item) i))"
  using assms
proof (induction "retryAttempts - attempt" arbitrary: attempt item w)
  case 0
  then have a: "attempt = retryAttempts" by simp
  show ?case
    by (subst downloadWithRetry.simps) (auto simp: a attemptDownload_cases)
next
  case (Suc n)
  then have lt: "attempt < retryAttempts" by simp
  let ?item1 = "item\<lparr>qi_retryCount := attempt, qi_status := Downloading\<rparr>"
  have n: "n = retryAttempts - (attempt + 1)" using Suc.hyps(2) by simp
  have le: "attempt + 1 \<le> retryAttempts" using lt by simp
  let ?w1 = "w\<lparr>requests := requests w @ [request item], sleeps := sleeps w @ [retryDelay attempt]\<rparr>"
  have ih: "fst (downloadWithRetry env (attempt + 1) ?item1 ?w1) = Inr r \<longrightarrow>
           (\<exists>i. r = Some (completedResult (qi_media item) i))"
    using Suc.hyps(1) [OF n le, of ?item1 ?w1] by simp
  show ?case
  proof (cases "failing (env (length (requests w)))")
    case True
    have "downloadWithRetry env attempt item w = downloadWithRetry env (attempt + 1) ?item1 ?w1"
      using lt by (subst downloadWithRetry.simps)
        (simp add: attemptDownload_failing [where env = env and w = w, OF True] request_def)
    with ih show ?thesis by simp
  next
    case False
    show ?thesis
      using lt False by (subst downloadWithRetry.simps) (auto simp: attemptDownload_cases)
  qed
qed

lemma processItem_result:
  "\<exists>r w'. processItem env item (q, w) =
      (q\<lparr>results := results q @ [Some r], currentDownload := None\<rparr>, w')
    \<and> dr_media r = qi_media item"
proof (cases "downloadWithRetry env 0 item w")
  case (fields r item' w')
  show ?thesis
  proof (cases r)
    case (Inl err)
    with fields show ?thesis
      by (intro exI [of _ "failedResult (qi_media item) err"] exI [of _ w'])
        (simp add: processItem_def failedResult_def)
  next
    case (Inr res)
    from downloadWithRetry_result [where attempt = 0 and env = env and item = item and w = w and r = res]
      fields Inr
    obtain i where "res = Some (completedResult (qi_media item) i)" by auto
    with fields Inr show ?thesis
      by (intro exI [of _ "completedResult (qi_media item) i"] exI [of _ w'])
        (simp add: processItem_def completedResult_def)
  qed
qed

lemma drain_results:
  "queue q = items \<Longrightarrow>
     \<exists>rs q' w'. drain env (q, w) = (q', w') \<and> queue q' = [] \<and> isProcessing q' = isProcessing q
        \<and> results q' = results q @ map Some rs \<and> map dr_media rs = map qi_media items"
proof (induction items arbitrary: q w)
  case Nil
  then show ?case
    by (subst drain.simps) (auto intro: exI [of _ "[]"])
next
  case (Cons item rest)
  obtain r w1 where p: "processItem env item (q\<lparr>queue := rest\<rparr>, w) =
      (q\<lparr>queue := rest, results := results q @ [Some r], currentDownload := None\<rparr>, w1)"
    and r: "dr_media r = qi_media item"
    using processItem_result [of env item "q\<lparr>queue := rest\<rparr>" w] by auto
  let ?q1 = "q\<lparr>queue := rest, results := results q @ [Some r], currentDownload := None\<rparr>"
  have "queue ?q1 = rest" by simp
  from Cons.IH [OF this, of w1] obtain rs q' w' where d: "drain env (?q1, w1) = (q', w')"
    "queue q' = []" "isProcessing q' = isProcessing ?q1"
    "results q' = results ?q1 @ map Some rs" "map dr_media rs = map qi_media rest"
    by blast
  have "drain env (q, w) = (q', w')"
    using Cons.prems p d(1) by (subst drain.simps) simp
  moreover have "results q' = results q @ map Some (r # rs)" using d(4) by simp
  moreover have "map dr_media (r # rs) = map qi_media (item # rest)" using d(5) r by simp
  ultimately show ?case using d(2,3) by (intro exI [of _ "r # rs"]) simp
qed

lemma processItem_exhausts:
  assumes "\<forall>j \<le> retryAttempts. failing (env (length (requests w) + j))"
  shows "processItem env item (q, w) =
         (q\<lparr>results := results q @
               [Some (failedResult (qi_media item)
                  (errorMessage (env (length (requests w) + retryAttempts))))],
            currentDownload := None\<rparr>,
          \<lparr>requests = requests w @ replicate (1 + retryAttempts) (request item),
           sleeps = sleeps w @ [2000, 4000, 8000]\<rparr>)"
proof -
  have delays: "map retryDelay [0..<retryAttempts] = [2000, 4000, 8000]"
    by (simp add: retryAttempts_def retryDelay_def retryDelays_def upt_conv_Cons)
  have "downloadWithRetry env 0 item w =
     (Inl (errorMessage (env (length (requests w) + retryAttempts))),
      item\<lparr>qi_retryCount := retryAttempts, qi_status := Downloading\<rparr>,
      \<lparr>requests = requests w @ replicate (1 + retryAttempts) (request item),
       sleeps = sleeps w @ [2000, 4000, 8000]\<rparr>)"
    using downloadWithRetry_exhausts [of 0 env w item] assms delays by simp
  then show ?thesis by (simp add: processItem_def failedResult_def)
qed

lemma processItem_completes:
  assumes "env (length (requests w)) = Complete i"
  shows "processItem env item (q, w) =
         (q\<lparr>results := results q @ [Some (completedResult (qi_media item) i)],
            currentDownload := None\<rparr>,
          w\<lparr>requests := requests w @ [request item]\<rparr>)"
proof -
  have "downloadWithRetry env 0 item w =
     (Inr (Some (completedResult (qi_media item) i)),
      item\<lparr>qi_retryCount := 0, qi_status := Completed\<rparr>,
      w\<lparr>requests := requests w @ [request item]\<rparr>)"
    by (subst downloadWithRetry.simps)
      (simp add: attemptDownload_complete [where env = env and w = w, OF assms] request_def)
  then show ?thesis by (simp add: processItem_def)
qed

lemma downloadWithRetry_requests:
  assumes "attempt \<le> retryAttempts"
  shows "\<exists>later. requests (snd (snd (downloadWithRetry env attempt item w))) = requests w @ later"
  using assms
proof (induction "retryAttempts - attempt" arbitrary: attempt item w)
  case 0
  then have a: "attempt = retryAttempts" by simp
  show ?case
    by (subst downloadWithRetry.simps) (auto simp: a attemptDownload_cases)
next
  case (Suc n)
  then have lt: "attempt < retryAttempts" by simp
  let ?item1 = "item\<lparr>qi_retryCount := attempt, qi_status := Downloading\<rparr>"
  have n: "n = retryAttempts - (attempt + 1)" using Suc.hyps(2) by simp
  have le: "attempt + 1 \<le> retryAttempts" using lt by simp
  let ?w1 = "w\<lparr>requests := requests w @ [request item], sleeps := sleeps w @ [retryDelay attempt]\<rparr>"
  from Suc.hyps(1) [OF n le, of ?item1 ?w1] obtain later where
    ih: "requests (snd (snd (downloadWithRetry env (attempt + 1) ?item1 ?w1)))
           = requests ?w1 @ later"
    by blast
  show ?case
  proof (cases "failing (env (length (requests w)))")
    case True
    have "downloadWithRetry env attempt item w = downloadWithRetry env (attempt + 1) ?item1 ?w1"
      using lt by (subst downloadWithRetry.simps)
        (simp add: attemptDownload_failing [where env = env and w = w, OF True] request_def)
    with ih show ?thesis by simp
  next
    case False
    show ?thesis
      using lt False by (subst downloadWithRetry.simps) (auto simp: attemptDownload_cases)
  qed
qed

lemma processItem_shape:
  "\<exists>r w' later. requests w' = requests w @ later
     \<and> (\<forall>q. processItem env item (q, w) =
              (q\<lparr>results := results q @ [r], currentDownload := None\<rparr>, w'))"
proof (cases "downloadWithRetry env 0 item w")
  case (fields res item' w')
  from downloadWithRetry_requests [of 0 env item w] fields
  obtain later where l: "requests w' = requests w @ later" by auto
  show ?thesis
  proof (cases res)
    case (Inl err)
    with fields l show ?thesis
      by (intro exI [of _ "Some (failedResult (qi_media item) err)"] exI [of _ w']
          exI [of _ later])
        (simp add: processItem_def failedResult_def)
  next
    case (Inr r)
    with fields l show ?thesis
      by (intro exI [of _ r] exI [of _ w'] exI [of _ later]) (simp add: processItem_def)
  qed
qed

lemma drain_append:
  "\<exists>rs w' later. length rs = length xs \<and> requests w' = requests w @ later
     \<and> (\<forall>q ys. queue q = xs @ ys \<longrightarrow>
           drain env (q\<lparr>queue := xs\<rparr>, w) =
             (q\<lparr>queue := [], results := results q @ rs,
                currentDownload := (if xs = [] then currentDownload q else None)\<rparr>, w')
         \<and> drain env (q, w) =
             drain env (q\<lparr>queue := ys, results := results q @ rs,
                currentDownload := (if xs = [] then currentDownload q else None)\<rparr>, w'))"
proof (induction xs arbitrary: w)
  case Nil
  have "drain env (q\<lparr>queue := []\<rparr>, w) = (q\<lparr>queue := []\<rparr>, w)" for q :: download_queue
    by (subst drain.simps) simp
  then show ?case
    by (intro exI [of _ "[]"] exI [of _ w]) simp
next
  case (Cons x xs)
  from processItem_shape [of w env x] obtain r w1 l1 where
    l1: "requests w1 = requests w @ l1"
    and p: "\<And>q. processItem env x (q, w) =
              (q\<lparr>results := results q @ [r], currentDownload := None\<rparr>, w1)"
    by blast
  from Cons.IH [of w1] obtain rs w' l2 where len: "length rs = length xs"
    and l2: "requests w' = requests w1 @ l2"
    and h: "\<And>q ys. queue q = xs @ ys \<Longrightarrow>
           drain env (q\<lparr>queue := xs\<rparr>, w1) =
             (q\<lparr>queue := [], results := results q @ rs,
                currentDownload := (if xs = [] then currentDownload q else None)\<rparr>, w')
         \<and> drain env (q, w1) =
             drain env (q\<lparr>queue := ys, results := results q @ rs,
                currentDownload := (if xs = [] then currentDownload q else None)\<rparr>, w')"
    by blast
  have step: "drain env (q\<lparr>queue := (x # xs)\<rparr>, w) =
             (q\<lparr>queue := [], results := results q @ r # rs, currentDownload := None\<rparr>, w')
         \<and> drain env (q, w) =
             drain env (q\<lparr>queue := ys, results := results q @ r # rs,
                currentDownload := None\<rparr>, w')"
    if q: "queue q = (x # xs) @ ys" for q ys
  proof -
    let ?qa = "q\<lparr>queue := xs @ ys, results := results q @ [r], currentDownload := None\<rparr>"
    have qa: "queue ?qa = xs @ ys" by simp
    have e: "(q\<lparr>queue := xs\<rparr>)\<lparr>results := results q @ [r], currentDownload := None\<rparr>
        = ?qa\<lparr>queue := xs\<rparr>"
      by simp
    have "drain env (q\<lparr>queue := (x # xs)\<rparr>, w)
        = drain env (processItem env x (q\<lparr>queue := xs\<rparr>, w))"
      by (subst drain.simps) simp
    also have "\<dots> = drain env ((q\<lparr>queue := xs\<rparr>)\<lparr>results := results q @ [r],
        currentDownload := None\<rparr>, w1)"
      by (simp only: p) simp
    finally have 1: "drain env (q\<lparr>queue := (x # xs)\<rparr>, w) = drain env (?qa\<lparr>queue := xs\<rparr>, w1)"
      by (simp only: e)
    have 2: "drain env (q, w) = drain env (?qa, w1)"
      using q by (subst drain.simps) (simp add: p)
    from h [OF qa] show ?thesis unfolding 1 2 by simp
  qed
  have fin: "\<forall>q ys. queue q = (x # xs) @ ys \<longrightarrow>
           drain env (q\<lparr>queue := x # xs\<rparr>, w) =
             (q\<lparr>queue := [], results := results q @ r # rs,
                currentDownload := (if x # xs = [] then currentDownload q else None)\<rparr>, w')
         \<and> drain env (q, w) =
             drain env (q\<lparr>queue := ys, results := results q @ r # rs,
                currentDownload := (if x # xs = [] then currentDownload q else None)\<rparr>, w')"
  proof (intro allI impI)
    fix q :: download_queue and ys
    assume a: "queue q = (x # xs) @ ys"
    from step [OF a] show "drain env (q\<lparr>queue := x # xs\<rparr>, w) =
             (q\<lparr>queue := [], results := results q @ r # rs,
                currentDownload := (if x # xs = [] then currentDownload q else None)\<rparr>, w')
         \<and> drain env (q, w) =
             drain env (q\<lparr>queue := ys, results := results q @ r # rs,
                currentDownload := (if x # xs = [] then currentDownload q else None)\<rparr>, w')"
      by (simp only: list.distinct if_False)
  qed
  have len': "length (r # rs) = length (x # xs)" using len by simp
  have req': "requests w' = requests w @ (l1 @ l2)" using l1 l2 by simp
  show ?case
    apply (rule exI [of _ "r # rs"], rule exI [of _ w'], rule exI [of _ "l1 @ l2"])
    apply (intro conjI)
      apply (rule len', rule req', rule fin)
    done
qed

lemma process_idle:
  "\<not> isProcessing q \<Longrightarrow> drain env (q\<lparr>isProcessing := True, results := []\<rparr>, w) = (q', w') \<Longrightarrow>
     process env (q, w) = (Inr (results q'), q'\<lparr>isProcessing := False\<rparr>, w')"
  by (simp add: process_def)

lemma process_single_complete:
  assumes "\<not> isProcessing q" and "queue q = [item]" and "env (length (requests w)) = Complete i"
  shows "process env (q, w) =
     (Inr [Some (completedResult (qi_media item) i)],
      q\<lparr>queue := [], isProcessing := False, currentDownload := None,
        results := [Some (completedResult (qi_media item) i)]\<rparr>,
      w\<lparr>requests := requests w @ [request item]\<rparr>)"
proof -
  let ?q0 = "q\<lparr>isProcessing := True, results := []\<rparr>"
  have "drain env (?q0, w) =
      (?q0\<lparr>queue := [], results := [Some (completedResult (qi_media item) i)],
           currentDownload := None\<rparr>,
       w\<lparr>requests := requests w @ [request item]\<rparr>)"
    using assms(2)
    by (subst drain.simps,
        simp add: processItem_completes [where env = env and w = w, OF assms(3)])
      (subst drain.simps, simp)
  then show ?thesis using assms(1) by (simp add: process_def)
qed

text \<open>
  C1. Take an idle queue and any item of it, with the items \<open>pre\<close> before it and
  \<open>post\<close> after it. Let \<open>process()\<close> on the items before it leave the world \<open>w0\<close>, and let
  the next \<open>1 + retryAttempts\<close> transfer requests fail (by rejection, error event or
  timeout). Then \<open>process()\<close> on the whole queue resolves, without throwing, with the
  results of the items before it, then the result \<open>failed\<close> with the last error's
  message for the item, then the results of the items after it, one result for each.
  For the item it makes exactly \<open>1 + retryAttempts = 4\<close> requests, after the requests
  for the items before it and before the requests for the items after it, and sleeps
  the three configured delays between them.
\<close>

theorem process_failed_after_retries:
  assumes "\<not> isProcessing q"
    and "queue q = pre @ item # post"
    and "process env (q\<lparr>queue := pre\<rparr>, w) = (Inr rs0, q0, w0)"
    and "\<forall>j \<le> retryAttempts. failing (env (length (requests w0) + j))"
  shows "1 + retryAttempts = 4
     \<and> length rs0 = length pre
     \<and> processItem env item (qa, w0) =
         (qa\<lparr>results := results qa @
               [Some (failedResult (qi_media item)
                  (errorMessage (env (length (requests w0) + retryAttempts))))],
            currentDownload := None\<rparr>,
          \<lparr>requests = requests w0 @ replicate (1 + retryAttempts) (request item),
           sleeps = sleeps w0 @ [2000, 4000, 8000]\<rparr>)
     \<and> (\<exists>rs2 q2 w2 q' later.
           process env (q\<lparr>queue := post\<rparr>,
               \<lparr>requests = requests w0 @ replicate (1 + retryAttempts) (request item),
                sleeps = sleeps w0 @ [2000, 4000, 8000]\<rparr>)
             = (Inr rs2, q2, w2)
         \<and> length rs2 = length post
         \<and> process env (q, w) =
             (Inr (rs0 @ Some (failedResult (qi_media item)
                     (errorMessage (env (length (requests w0) + retryAttempts)))) # rs2),
              q', w2)
         \<and> queue q' = [] \<and> \<not> isProcessing q'
         \<and> requests w2 =
             requests w0 @ replicate (1 + retryAttempts) (request item) @ later)"
proof -
  let ?failed = "failedResult (qi_media item) (errorMessage (env (length (requests w0) + retryAttempts)))"
  let ?w1 = "\<lparr>requests = requests w0 @ replicate (1 + retryAttempts) (request item),
              sleeps = sleeps w0 @ [2000, 4000, 8000]\<rparr>"
  let ?qs = "q\<lparr>isProcessing := True, results := []\<rparr>"
  let ?cd = "if pre = [] then currentDownload q else None"
  have four: "1 + retryAttempts = 4" by (simp add: retryAttempts_def)
  have body: "processItem env item (q1, w0) =
      (q1\<lparr>results := results q1 @ [Some ?failed], currentDownload := None\<rparr>, ?w1)" for q1
    using processItem_exhausts [OF assms(4)] by simp
  from drain_append [of pre w env] obtain rsA wA where lenA: "length rsA = length pre"
    and hA: "\<And>q ys. queue q = pre @ ys \<Longrightarrow>
           drain env (q\<lparr>queue := pre\<rparr>, w) =
             (q\<lparr>queue := [], results := results q @ rsA,
                currentDownload := (if pre = [] then currentDownload q else None)\<rparr>, wA)
         \<and> drain env (q, w) =
             drain env (q\<lparr>queue := ys, results := results q @ rsA,
                currentDownload := (if pre = [] then currentDownload q else None)\<rparr>, wA)"
    by blast
  have qs: "queue ?qs = pre @ item # post" using assms(2) by simp
  from hA [OF qs] have a1: "drain env (?qs\<lparr>queue := pre\<rparr>, w) =
      (?qs\<lparr>queue := [], results := rsA, currentDownload := ?cd\<rparr>, wA)"
    and a2: "drain env (?qs, w) =
      drain env (?qs\<lparr>queue := item # post, results := rsA, currentDownload := ?cd\<rparr>, wA)"
    by simp_all
  have pre_eq: "(q\<lparr>queue := pre\<rparr>)\<lparr>isProcessing := True, results := []\<rparr> = ?qs\<lparr>queue := pre\<rparr>"
    by simp
  have "process env (q\<lparr>queue := pre\<rparr>, w) =
      (Inr rsA, ?qs\<lparr>queue := [], results := rsA, currentDownload := ?cd, isProcessing := False\<rparr>, wA)"
  proof -
    have i: "\<not> isProcessing (q\<lparr>queue := pre\<rparr>)" using assms(1) by simp
    have b: "drain env ((q\<lparr>queue := pre\<rparr>)\<lparr>isProcessing := True, results := []\<rparr>, w) =
      (?qs\<lparr>queue := [], results := rsA, currentDownload := ?cd\<rparr>, wA)"
      by (simp only: pre_eq a1)
    from process_idle [OF i b] show ?thesis by simp
  qed
  with assms(3) have r0: "rs0 = rsA" and w0: "w0 = wA" by simp_all
  let ?qc = "?qs\<lparr>queue := post, results := rs0 @ [Some ?failed], currentDownload := None\<rparr>"
  have s: "drain env (?qs\<lparr>queue := item # post, results := rsA, currentDownload := ?cd\<rparr>, wA)
      = drain env (?qc, ?w1)"
    unfolding r0 [symmetric] w0 [symmetric] by (subst drain.simps) (simp add: body)
  from drain_append [of post ?w1 env] obtain rsB wB later where lenB: "length rsB = length post"
    and lB: "requests wB = requests ?w1 @ later"
    and hB: "\<And>q ys. queue q = post @ ys \<Longrightarrow>
           drain env (q\<lparr>queue := post\<rparr>, ?w1) =
             (q\<lparr>queue := [], results := results q @ rsB,
                currentDownload := (if post = [] then currentDownload q else None)\<rparr>, wB)"
    by blast
  have qc: "queue ?qc = post @ []" by simp
  have qc': "?qc\<lparr>queue := post\<rparr> = ?qc" by simp
  from hB [OF qc] have b1: "drain env (?qc, ?w1) =
      (?qc\<lparr>queue := [], results := rs0 @ Some ?failed # rsB\<rparr>, wB)"
    unfolding qc' by simp
  have d: "drain env (?qs, w) = (?qc\<lparr>queue := [], results := rs0 @ Some ?failed # rsB\<rparr>, wB)"
    by (simp only: a2 s b1)
  have whole: "process env (q, w) =
      (Inr (rs0 @ Some ?failed # rsB),
       ?qc\<lparr>queue := [], results := rs0 @ Some ?failed # rsB, isProcessing := False\<rparr>, wB)"
    using process_idle [OF assms(1) d] by simp
  let ?qp = "q\<lparr>queue := post, isProcessing := True, results := []\<rparr>"
  have qp: "queue ?qp = post @ []" by simp
  have qp': "?qp\<lparr>queue := post\<rparr> = ?qp" by simp
  from hB [OF qp] have b2: "drain env (?qp, ?w1) =
      (?qp\<lparr>queue := [], results := rsB,
           currentDownload := (if post = [] then currentDownload q else None)\<rparr>, wB)"
    unfolding qp' by simp
  have rest: "process env (q\<lparr>queue := post\<rparr>, ?w1) =
      (Inr rsB,
       ?qp\<lparr>queue := [], results := rsB,
           currentDownload := (if post = [] then currentDownload q else None),
           isProcessing := False\<rparr>, wB)"
  proof -
    have i: "\<not> isProcessing (q\<lparr>queue := post\<rparr>)" using assms(1) by simp
    have b: "drain env ((q\<lparr>queue := post\<rparr>)\<lparr>isProcessing := True, results := []\<rparr>, ?w1) =
      (?qp\<lparr>queue := [], results := rsB,
           currentDownload := (if post = [] then currentDownload q else None)\<rparr>, wB)"
      by (rule b2)
    from process_idle [OF i b] show ?thesis by simp
  qed
  have rq: "requests wB = requests w0 @ replicate (1 + retryAttempts) (request item) @ later"
    using lB by simp
  have "\<exists>rs2 q2 w2 q' later.
           process env (q\<lparr>queue := post\<rparr>, ?w1) = (Inr rs2, q2, w2)
         \<and> length rs2 = length post
         \<and> process env (q, w) = (Inr (rs0 @ Some ?failed # rs2), q', w2)
         \<and> queue q' = [] \<and> \<not> isProcessing q'
         \<and> requests w2 =
             requests w0 @ replicate (1 + retryAttempts) (request item) @ later"
    using rest lenB whole rq
    by (intro exI [of _ rsB] exI [of _ wB] exI [of _ later]
        exI [of _ "?qp\<lparr>queue := [], results := rsB,
           currentDownload := (if post = [] then currentDownload q else None),
           isProcessing := False\<rparr>"]
        exI [of _ "?qc\<lparr>queue := [], results := rs0 @ Some ?failed # rsB, isProcessing := False\<rparr>"])
      simp
  with four lenA r0 body [of qa] show ?thesis by simp
qed

theorem process_failed_after_retries_witness:
  "\<not> isProcessing (add threeItems ''https://example.com/post'' createDownloadQueue)
   \<and> queue (add threeItems ''https://example.com/post'' createDownloadQueue)
       = [firstItem] @ secondItem # [thirdItem]
   \<and> fst (process secondFails
       (add threeItems ''https://example.com/post'' createDownloadQueue\<lparr>queue := [firstItem]\<rparr>,
        idleWorld))
       = Inr [Some (completedResult (exampleMedia ''https://example.com/1.jpg'' ''1.jpg'') 100)]
   \<and> snd (snd (process secondFails
       (add threeItems ''https://example.com/post'' createDownloadQueue\<lparr>queue := [firstItem]\<rparr>,
        idleWorld))) = oneRequestMade
   \<and> list_all (\<lambda>j. failing (secondFails (length (requests oneRequestMade) + j))) [0, 1, 2, 3]
   \<and> fst (process secondFails
         (add threeItems ''https://example.com/post'' createDownloadQueue, idleWorld))
     = Inr [Some (completedResult (exampleMedia ''https://example.com/1.jpg'' ''1.jpg'') 100),
            Some (failedResult (exampleMedia ''https://example.com/2.jpg'' ''2.jpg'') ''SERVER_FAILED''),
            Some (completedResult (exampleMedia ''https://example.com/3.jpg'' ''3.jpg'') 105)]
   \<and> snd (snd (process secondFails
         (add threeItems ''https://example.com/post'' createDownloadQueue, idleWorld)))
     = \<lparr>requests = [(''https://example.com/1.jpg'', ''1.jpg''),
                    (''https://example.com/2.jpg'', ''2.jpg''), (''https://example.com/2.jpg'', ''2.jpg''),
                    (''https://example.com/2.jpg'', ''2.jpg''), (''https://example.com/2.jpg'', ''2.jpg''),
                    (''https://example.com/3.jpg'', ''3.jpg'')],
        sleeps = [2000, 4000, 8000]\<rparr>"
proof -
  let ?q = "add threeItems ''https://example.com/post'' createDownloadQueue"
  let ?m1 = "exampleMedia ''https://example.com/1.jpg'' ''1.jpg''"
  let ?m2 = "exampleMedia ''https://example.com/2.jpg'' ''2.jpg''"
  let ?m3 = "exampleMedia ''https://example.com/3.jpg'' ''3.jpg''"
  let ?w1 = "\<lparr>requests = requests oneRequestMade @ replicate (1 + retryAttempts) (request secondItem),
              sleeps = sleeps oneRequestMade @ [2000, 4000, 8000]\<rparr>"
  have idle: "\<not> isProcessing ?q" by (simp add: add_def createDownloadQueue_def)
  have qu: "queue ?q = [firstItem] @ secondItem # [thirdItem]"
    by (simp add: add_def createDownloadQueue_def threeItems_def firstItem_def secondItem_def
        thirdItem_def)
  have media: "qi_media firstItem = ?m1" "qi_media secondItem = ?m2" "qi_media thirdItem = ?m3"
    by (simp_all add: firstItem_def secondItem_def thirdItem_def)
  have reqs: "request firstItem = (''https://example.com/1.jpg'', ''1.jpg'')"
    "request secondItem = (''https://example.com/2.jpg'', ''2.jpg'')"
    "request thirdItem = (''https://example.com/3.jpg'', ''3.jpg'')"
    by (simp_all add: request_def media exampleMedia_def)
  have before: "process secondFails (?q\<lparr>queue := [firstItem]\<rparr>, idleWorld) =
      (Inr [Some (completedResult ?m1 100)],
       (?q\<lparr>queue := [firstItem]\<rparr>)\<lparr>queue := [], isProcessing := False, currentDownload := None,
         results := [Some (completedResult ?m1 100)]\<rparr>,
       oneRequestMade)"
    using process_single_complete [of "?q\<lparr>queue := [firstItem]\<rparr>" firstItem secondFails idleWorld 100]
      idle
    by (simp add: secondFails_def idleWorld_def oneRequestMade_def media reqs)
  have h: "\<forall>j \<le> retryAttempts. failing (secondFails (length (requests oneRequestMade) + j))"
    by (simp add: retryAttempts_def oneRequestMade_def secondFails_def failing_def)
  have hl: "list_all (\<lambda>j. failing (secondFails (length (requests oneRequestMade) + j))) [0, 1, 2, 3]"
    by (simp add: oneRequestMade_def secondFails_def failing_def)
  have e: "errorMessage (secondFails (length (requests oneRequestMade) + retryAttempts)) = ''SERVER_FAILED''"
    by (simp add: retryAttempts_def oneRequestMade_def secondFails_def errorMessage_def)
  have w1: "?w1 =
      \<lparr>requests = [(''https://example.com/1.jpg'', ''1.jpg''),
                    (''https://example.com/2.jpg'', ''2.jpg''), (''https://example.com/2.jpg'', ''2.jpg''),
                    (''https://example.com/2.jpg'', ''2.jpg''), (''https://example.com/2.jpg'', ''2.jpg'')],
       sleeps = [2000, 4000, 8000]\<rparr>"
    by (simp add: retryAttempts_def reqs oneRequestMade_def numeral_eq_Suc)
  have after: "process secondFails (?q\<lparr>queue := [thirdItem]\<rparr>, ?w1) =
      (Inr [Some (completedResult ?m3 105)],
       (?q\<lparr>queue := [thirdItem]\<rparr>)\<lparr>queue := [], isProcessing := False, currentDownload := None,
         results := [Some (completedResult ?m3 105)]\<rparr>,
       \<lparr>requests = [(''https://example.com/1.jpg'', ''1.jpg''),
                    (''https://example.com/2.jpg'', ''2.jpg''), (''https://example.com/2.jpg'', ''2.jpg''),
                    (''https://example.com/2.jpg'', ''2.jpg''), (''https://example.com/2.jpg'', ''2.jpg''),
                    (''https://example.com/3.jpg'', ''3.jpg'')],
          sleeps = [2000, 4000, 8000]\<rparr>)"
    unfolding w1
    using process_single_complete [of "?q\<lparr>queue := [thirdItem]\<rparr>" thirdItem secondFails _ 105]
      idle
    by (simp add: secondFails_def media reqs)
  from process_failed_after_retries [OF idle qu before h]
  obtain rs2 q2 w2 q' where
    p: "process secondFails (?q\<lparr>queue := [thirdItem]\<rparr>, ?w1) = (Inr rs2, q2, w2)"
    and r: "process secondFails (?q, idleWorld) =
      (Inr ([Some (completedResult ?m1 100)] @
            Some (failedResult (qi_media secondItem)
              (errorMessage (secondFails (length (requests oneRequestMade) + retryAttempts)))) # rs2),
       q', w2)"
    and f: "queue q' = []" "\<not> isProcessing q'"
    by blast
  from p after have rs2: "rs2 = [Some (completedResult ?m3 105)]"
    and w2: "w2 = \<lparr>requests = [(''https://example.com/1.jpg'', ''1.jpg''),
                    (''https://example.com/2.jpg'', ''2.jpg''), (''https://example.com/2.jpg'', ''2.jpg''),
                    (''https://example.com/2.jpg'', ''2.jpg''), (''https://example.com/2.jpg'', ''2.jpg''),
                    (''https://example.com/3.jpg'', ''3.jpg'')],
          sleeps = [2000, 4000, 8000]\<rparr>"
    by simp_all
  have res: "fst (process secondFails (?q, idleWorld)) =
      Inr [Some (completedResult ?m1 100), Some (failedResult ?m2 ''SERVER_FAILED''),
           Some (completedResult ?m3 105)]"
    using r by (simp add: rs2 e media)
  have wf: "snd (snd (process secondFails (?q, idleWorld))) =
      \<lparr>requests = [(''https://example.com/1.jpg'', ''1.jpg''),
                    (''https://example.com/2.jpg'', ''2.jpg''), (''https://example.com/2.jpg'', ''2.jpg''),
                    (''https://example.com/2.jpg'', ''2.jpg''), (''https://example.com/2.jpg'', ''2.jpg''),
                    (''https://example.com/3.jpg'', ''3.jpg'')],
        sleeps = [2000, 4000, 8000]\<rparr>"
    using r by (simp add: w2)
  from idle qu before hl res wf show ?thesis by simp
qed

text \<open>
  C2. A \<open>process()\<close> call on an idle queue resolves with exactly one result per pending
  item, in the order of the queue, whatever the outcome of each item; it leaves the
  queue empty. \<open>add\<close> appends the items in the order given, so the results follow the
  order in which the items were added.
\<close>

theorem process_results_in_order:
  assumes "\<not> isProcessing q"
  shows "(\<exists>rs q' w'. process env (q, w) = (Inr (map Some rs), q', w')
            \<and> length rs = length (queue q)
            \<and> map dr_media rs = map qi_media (queue q)
            \<and> queue q' = [] \<and> \<not> isProcessing q')
     \<and> map qi_media (queue (add mediaItems sourceUrl q)) = map qi_media (queue q) @ mediaItems"
proof -
  let ?q0 = "q\<lparr>isProcessing := True, results := []\<rparr>"
  have "queue ?q0 = queue q" by simp
  from drain_results [OF this, of env w] obtain rs q' w' where d:
    "drain env (?q0, w) = (q', w')" "queue q' = []"
    "results q' = results ?q0 @ map Some rs" "map dr_media rs = map qi_media (queue q)"
    by blast
  have "process env (q, w) = (Inr (map Some rs), q'\<lparr>isProcessing := False\<rparr>, w')"
    using assms d by (simp add: process_def)
  moreover have "length rs = length (queue q)"
    using d(4) by (metis length_map)
  ultimately have "\<exists>rs q' w'. process env (q, w) = (Inr (map Some rs), q', w')
            \<and> length rs = length (queue q)
            \<and> map dr_media rs = map qi_media (queue q)
            \<and> queue q' = [] \<and> \<not> isProcessing q'"
    using d(2,4) by (intro exI [of _ rs] exI [of _ "q'\<lparr>isProcessing := False\<rparr>"] exI [of _ w']) simp
  moreover have "map qi_media (queue (add mediaItems sourceUrl q)) = map qi_media (queue q) @ mediaItems"
    by (simp add: add_def comp_def)
  ultimately show ?thesis by blast
qed

lemma process_three_items:
  "process secondFails (add threeItems ''https://example.com/post'' createDownloadQueue, idleWorld)
     = (Inr [Some (completedResult (exampleMedia ''https://example.com/1.jpg'' ''1.jpg'') 100),
             Some (failedResult (exampleMedia ''https://example.com/2.jpg'' ''2.jpg'') ''SERVER_FAILED''),
             Some (completedResult (exampleMedia ''https://example.com/3.jpg'' ''3.jpg'') 105)],
        \<lparr>queue = [], isProcessing = False, currentDownload = None,
          results = [Some (completedResult (exampleMedia ''https://example.com/1.jpg'' ''1.jpg'') 100),
             Some (failedResult (exampleMedia ''https://example.com/2.jpg'' ''2.jpg'') ''SERVER_FAILED''),
             Some (completedResult (exampleMedia ''https://example.com/3.jpg'' ''3.jpg'') 105)]\<rparr>,
        \<lparr>requests = [(''https://example.com/1.jpg'', ''1.jpg''),
                    (''https://example.com/2.jpg'', ''2.jpg''), (''https://example.com/2.jpg'', ''2.jpg''),
                    (''https://example.com/2.jpg'', ''2.jpg''), (''https://example.com/2.jpg'', ''2.jpg''),
                    (''https://example.com/3.jpg'', ''3.jpg'')],
          sleeps = [2000, 4000, 8000]\<rparr>)"
proof -
  let ?mk = "\<lambda>m. \<lparr>qi_media = m, qi_sourceUrl = ''https://example.com/post'', qi_retryCount = 0,
                   qi_status = Pending\<rparr>"
  let ?m1 = "exampleMedia ''https://example.com/1.jpg'' ''1.jpg''"
  let ?m2 = "exampleMedia ''https://example.com/2.jpg'' ''2.jpg''"
  let ?m3 = "exampleMedia ''https://example.com/3.jpg'' ''3.jpg''"
  let ?q0 = "\<lparr>queue = [?mk ?m1, ?mk ?m2, ?mk ?m3], isProcessing = True, currentDownload = None,
              results = []\<rparr>"
  have s1: "processItem secondFails (?mk ?m1)
      (\<lparr>queue = [?mk ?m2, ?mk ?m3], isProcessing = True, currentDownload = None, results = []\<rparr>,
       idleWorld) =
      (\<lparr>queue = [?mk ?m2, ?mk ?m3], isProcessing = True, currentDownload = None,
        results = [Some (completedResult ?m1 100)]\<rparr>,
       \<lparr>requests = [(''https://example.com/1.jpg'', ''1.jpg'')], sleeps = []\<rparr>)"
    by (subst processItem_completes [where i = 100])
      (simp_all add: secondFails_def idleWorld_def request_def exampleMedia_def)
  have s2: "processItem secondFails (?mk ?m2)
      (\<lparr>queue = [?mk ?m3], isProcessing = True, currentDownload = None,
        results = [Some (completedResult ?m1 100)]\<rparr>,
       \<lparr>requests = [(''https://example.com/1.jpg'', ''1.jpg'')], sleeps = []\<rparr>) =
      (\<lparr>queue = [?mk ?m3], isProcessing = True, currentDownload = None,
        results = [Some (completedResult ?m1 100), Some (failedResult ?m2 ''SERVER_FAILED'')]\<rparr>,
       \<lparr>requests = [(''https://example.com/1.jpg'', ''1.jpg''),
                    (''https://example.com/2.jpg'', ''2.jpg''), (''https://example.com/2.jpg'', ''2.jpg''),
                    (''https://example.com/2.jpg'', ''2.jpg''), (''https://example.com/2.jpg'', ''2.jpg'')],
        sleeps = [2000, 4000, 8000]\<rparr>)"
    by (subst processItem_exhausts)
      (simp_all add: secondFails_def failing_def errorMessage_def retryAttempts_def request_def
        exampleMedia_def numeral_eq_Suc)
  have s3: "processItem secondFails (?mk ?m3)
      (\<lparr>queue = [], isProcessing = True, currentDownload = None,
        results = [Some (completedResult ?m1 100), Some (failedResult ?m2 ''SERVER_FAILED'')]\<rparr>,
       \<lparr>requests = [(''https://example.com/1.jpg'', ''1.jpg''),
                    (''https://example.com/2.jpg'', ''2.jpg''), (''https://example.com/2.jpg'', ''2.jpg''),
                    (''https://example.com/2.jpg'', ''2.jpg''), (''https://example.com/2.jpg'', ''2.jpg'')],
        sleeps = [2000, 4000, 8000]\<rparr>) =
      (\<lparr>queue = [], isProcessing = True, currentDownload = None,
        results = [Some (completedResult ?m1 100), Some (failedResult ?m2 ''SERVER_FAILED''),
                   Some (completedResult ?m3 105)]\<rparr>,
       \<lparr>requests = [(''https://example.com/1.jpg'', ''1.jpg''),
                    (''https://example.com/2.jpg'', ''2.jpg''), (''https://example.com/2.jpg'', ''2.jpg''),
                    (''https://example.com/2.jpg'', ''2.jpg''), (''https://example.com/2.jpg'', ''2.jpg''),
                    (''https://example.com/3.jpg'', ''3.jpg'')],
        sleeps = [2000, 4000, 8000]\<rparr>)"
    by (subst processItem_completes [where i = 105])
      (simp_all add: secondFails_def request_def exampleMedia_def)
  have "drain secondFails (?q0, idleWorld) =
      (\<lparr>queue = [], isProcessing = True, currentDownload = None,
        results = [Some (completedResult ?m1 100), Some (failedResult ?m2 ''SERVER_FAILED''),
                   Some (completedResult ?m3 105)]\<rparr>,
       \<lparr>requests = [(''https://example.com/1.jpg'', ''1.jpg''),
                    (''https://example.com/2.jpg'', ''2.jpg''), (''https://example.com/2.jpg'', ''2.jpg''),
                    (''https://example.com/2.jpg'', ''2.jpg''), (''https://example.com/2.jpg'', ''2.jpg''),
                    (''https://example.com/3.jpg'', ''3.jpg'')],
        sleeps = [2000, 4000, 8000]\<rparr>)"
    apply (subst drain.simps, simp add: s1)
    apply (subst drain.simps, simp add: s2)
    apply (subst drain.simps, simp add: s3)
    apply (subst drain.simps, simp)
    done
  then show ?thesis
    by (simp add: process_def add_def createDownloadQueue_def threeItems_def)
qed

theorem process_results_in_order_witness:
  "\<not> isProcessing (add threeItems ''https://example.com/post'' createDownloadQueue)
   \<and> fst (process secondFails (add threeItems ''https://example.com/post'' createDownloadQueue, idleWorld))
     = Inr [Some (completedResult (exampleMedia ''https://example.com/1.jpg'' ''1.jpg'') 100),
            Some (failedResult (exampleMedia ''https://example.com/2.jpg'' ''2.jpg'') ''SERVER_FAILED''),
            Some (completedResult (exampleMedia ''https://example.com/3.jpg'' ''3.jpg'') 105)]
   \<and> map qi_media (queue (add threeItems ''https://example.com/post'' createDownloadQueue)) = threeItems"
proof -
  let ?q = "add threeItems ''https://example.com/post'' createDownloadQueue"
  have idle: "\<not> isProcessing ?q" by (simp add: add_def createDownloadQueue_def)
  from process_results_in_order [OF idle, of secondFails idleWorld threeItems "''https://example.com/post''"]
  obtain rs q' w' where r: "process secondFails (?q, idleWorld) = (Inr (map Some rs), q', w')"
    "map dr_media rs = map qi_media (queue ?q)"
    by blast
  have "map qi_media (queue ?q) = threeItems"
    by (simp add: add_def createDownloadQueue_def comp_def)
  with idle process_three_items show ?thesis by simp
qed

subsection \<open>URLs of detected media\<close>

lemma isValidMediaUrl_iff:
  "isValidMediaUrl u \<longleftrightarrow>
     u \<noteq> [] \<and> (startsWith u ''http://'' \<or> startsWith u ''https://'')
     \<and> \<not> startsWith u ''data:'' \<and> length u \<le> 2048"
  by (auto simp: isValidMediaUrl_def)

lemma createMediaObject_url:
  "isValidMediaUrl u \<Longrightarrow> m_url (createMediaObject doc k u t e s) = u"
  by (auto simp: createMediaObject_def makeAbsoluteUrl_def isValidMediaUrl_iff)

lemma createMediaObject_kindAndUrl:
  "isValidMediaUrl u \<Longrightarrow> kindAndUrl (createMediaObject doc k u t e s) = (t, u)"
  by (simp add: kindAndUrl_def createMediaObject_url) (simp add: createMediaObject_def)

lemma detectHeroVideo_valid: "detectHeroVideo doc = Some m \<Longrightarrow> isValidMediaUrl (m_url m)"
  by (auto simp: detectHeroVideo_def Let_def createMediaObject_url
      split: if_splits list.splits option.splits prod.splits)

lemma detectHeroImage_valid: "detectHeroImage doc = Some m \<Longrightarrow> isValidMediaUrl (m_url m)"
  by (auto simp: detectHeroImage_def Let_def createMediaObject_url
      split: if_splits list.splits option.splits prod.splits)

lemma detectHeroBackgroundImage_valid:
  "detectHeroBackgroundImage doc = Some m \<Longrightarrow> isValidMediaUrl (m_url m)"
  by (auto simp: detectHeroBackgroundImage_def Let_def createMediaObject_url
      split: if_splits list.splits option.splits prod.splits)

lemma detectHeroMedia_valid: "m \<in> set (detectHeroMedia doc) \<Longrightarrow> isValidMediaUrl (m_url m)"
  by (auto simp: detectHeroMedia_def detectHeroVideo_valid detectHeroImage_valid
      detectHeroBackgroundImage_valid split: if_splits option.splits)

lemma imageCandidate_valid: "imageCandidate doc img = Some u \<Longrightarrow> isValidMediaUrl u"
  by (auto simp: imageCandidate_def split: if_splits option.splits)

lemma videoCandidate_valid: "videoCandidate doc v = Some u \<Longrightarrow> isValidMediaUrl u"
  by (auto simp: videoCandidate_def split: if_splits option.splits)

lemma collectImages_Cons:
  "collectImages doc (img # rest) (acc, seen) =
     (case imageCandidate doc img of
        None \<Rightarrow> collectImages doc rest (acc, seen)
      | Some u \<Rightarrow>
          if u \<in> seen then collectImages doc rest (acc, seen)
          else collectImages doc rest
                 (acc @ [createMediaObject doc (length acc) u ''image'' img 0], insert u seen))"
  by (auto simp: imageCandidate_def split: option.splits)

lemma collectVideos_Cons:
  "collectVideos doc (video # rest) (acc, seen) =
     (case videoCandidate doc video of
        None \<Rightarrow> collectVideos doc rest (acc, seen)
      | Some u \<Rightarrow>
          if u \<in> seen then collectVideos doc rest (acc, seen)
          else collectVideos doc rest
                 (acc @ [createMediaObject doc (length acc) u ''video'' video 0], insert u seen))"
  by (auto simp: videoCandidate_def split: option.splits)

lemma filter_unseen_firstOccurrences:
  "x \<in> seen \<Longrightarrow> filter (\<lambda>y. y \<noteq> x \<and> y \<notin> seen) xs = filter (\<lambda>y. y \<notin> seen) xs"
  by (rule filter_cong) auto

lemma collectImages_kinds:
  "map kindAndUrl (fst (collectImages doc imgs (acc, seen))) =
     map kindAndUrl acc
       @ map (Pair ''image'')
           (filter (\<lambda>u. u \<notin> seen) (firstOccurrences (List.map_filter (imageCandidate doc) imgs)))"
proof (induction imgs arbitrary: acc seen)
  case Nil
  then show ?case by (simp add: map_filter_simps)
next
  case (Cons img rest)
  show ?case
  proof (cases "imageCandidate doc img")
    case None
    with Cons show ?thesis by (simp add: collectImages_Cons map_filter_simps del: collectImages.simps)
  next
    case (Some u)
    show ?thesis
    proof (cases "u \<in> seen")
      case True
      with Some Cons show ?thesis
        by (simp add: collectImages_Cons map_filter_simps filter_unseen_firstOccurrences
            del: collectImages.simps)
    next
      case False
      from False Some Cons [of "acc @ [createMediaObject doc (length acc) u ''image'' img 0]" "insert u seen"]
      show ?thesis
        by (simp add: collectImages_Cons map_filter_simps
            createMediaObject_kindAndUrl [OF imageCandidate_valid [OF Some]]
            del: collectImages.simps)
    qed
  qed
qed

lemma collectVideos_kinds:
  "map kindAndUrl (fst (collectVideos doc vids (acc, seen))) =
     map kindAndUrl acc
       @ map (Pair ''video'')
           (filter (\<lambda>u. u \<notin> seen) (firstOccurrences (List.map_filter (videoCandidate doc) vids)))"
proof (induction vids arbitrary: acc seen)
  case Nil
  then show ?case by (simp add: map_filter_simps)
next
  case (Cons video rest)
  show ?case
  proof (cases "videoCandidate doc video")
    case None
    with Cons show ?thesis by (simp add: collectVideos_Cons map_filter_simps del: collectVideos.simps)
  next
    case (Some u)
    show ?thesis
    proof (cases "u \<in> seen")
      case True
      with Some Cons show ?thesis
        by (simp add: collectVideos_Cons map_filter_simps filter_unseen_firstOccurrences
            del: collectVideos.simps)
    next
      case False
      from False Some Cons [of "acc @ [createMediaObject doc (length acc) u ''video'' video 0]" "insert u seen"]
      show ?thesis
        by (simp add: collectVideos_Cons map_filter_simps
            createMediaObject_kindAndUrl [OF videoCandidate_valid [OF Some]]
            del: collectVideos.simps)
    qed
  qed
qed

lemma set_firstOccurrences: "set (firstOccurrences xs) = set xs"
  by (induction xs) auto

lemma distinct_firstOccurrences: "distinct (firstOccurrences xs)"
  by (induction xs) auto

lemma length_firstOccurrences: "length (firstOccurrences xs) = card (set xs)"
  using distinct_card [OF distinct_firstOccurrences [of xs]] by (simp add: set_firstOccurrences)

lemma limitedItems_kinds:
  "articles doc = article # others \<Longrightarrow>
     map kindAndUrl (limitedItems doc) =
       take maxCarouselItems
         (map (Pair ''image'') (firstOccurrences (imageUrls doc article))
          @ map (Pair ''video'') (firstOccurrences (videoUrls doc article)))"
  by (simp add: limitedItems_def take_map [symmetric] collectVideos_kinds collectImages_kinds
      imageUrls_def videoUrls_def)

lemma detectCarousel_numberItems: "detectCarousel doc = numberItems (limitedItems doc)"
  by (simp add: detectCarousel_def limitedItems_def Let_def numberItems_def
      split: list.splits prod.splits)

lemma map_enumerate_proj:
  "(\<And>i x. g (h i x) = k x) \<Longrightarrow> map g (map (\<lambda>(i, x). h i x) (enumerate n xs)) = map k xs"
  by (induction xs arbitrary: n) auto

lemma numberItems_kinds: "map kindAndUrl (numberItems xs) = map kindAndUrl xs"
  unfolding numberItems_def by (rule map_enumerate_proj) (simp add: kindAndUrl_def)

lemma numberItems_length: "length (numberItems xs) = length xs"
  by (simp add: numberItems_def)

lemma firstImage_valid: "m \<in> set (firstImage doc imgs) \<Longrightarrow> isValidMediaUrl (m_url m)"
  by (induction imgs) (auto simp: createMediaObject_url split: if_splits option.splits)

lemma map_filter_member: "u \<in> set (List.map_filter f xs) \<Longrightarrow> \<exists>x. f x = Some u"
  by (auto simp: map_filter_def)

lemma detectCarousel_kinds:
  "articles doc = article # others \<Longrightarrow>
     map kindAndUrl (detectCarousel doc) =
       take maxCarouselItems
         (map (Pair ''image'') (firstOccurrences (imageUrls doc article))
          @ map (Pair ''video'') (firstOccurrences (videoUrls doc article)))"
  by (simp add: detectCarousel_numberItems numberItems_kinds limitedItems_kinds)

lemma detectCarousel_no_article: "articles doc = [] \<Longrightarrow> detectCarousel doc = []"
  by (simp add: detectCarousel_def)

lemma detectCarousel_valid:
  assumes "m \<in> set (detectCarousel doc)"
  shows "isValidMediaUrl (m_url m)"
proof (cases "articles doc")
  case Nil
  with assms show ?thesis by (simp add: detectCarousel_no_article)
next
  case (Cons article others)
  from assms have "kindAndUrl m \<in> set (map kindAndUrl (detectCarousel doc))" by simp
  then have "kindAndUrl m \<in> set (map (Pair ''image'') (firstOccurrences (imageUrls doc article))
          @ map (Pair ''video'') (firstOccurrences (videoUrls doc article)))"
    unfolding detectCarousel_kinds [OF Cons] by (rule in_set_takeD)
  then have "m_url m \<in> set (imageUrls doc article) \<or> m_url m \<in> set (videoUrls doc article)"
    by (auto simp: kindAndUrl_def set_firstOccurrences)
  then show ?thesis
    by (auto simp: imageUrls_def videoUrls_def dest!: map_filter_member
        intro: imageCandidate_valid videoCandidate_valid)
qed

lemma detectHeroMediaInstagram_valid:
  "m \<in> set (detectHeroMediaInstagram doc) \<Longrightarrow> isValidMediaUrl (m_url m)"
  by (auto simp: detectHeroMediaInstagram_def detectVideo_def detectReel_def detectImage_def
      createMediaObject_url detectCarousel_valid firstImage_valid
      split: post_type.splits list.splits option.splits if_splits)

text \<open>
  C9. The URL of every media object the generic detector or the Instagram detector
  returns is a non-empty string that starts with \<open>http://\<close> or \<open>https://\<close>, does not
  start with \<open>data:\<close> and has at most 2048 characters; and \<open>isValidMediaUrl\<close> rejects
  every URL that starts with \<open>data:image/png;base64,\<close>, whatever its length.
\<close>

theorem detected_media_urls_valid:
  "(m \<in> set (detectHeroMedia doc) \<or> m \<in> set (detectHeroMediaInstagram doc) \<longrightarrow>
      isValidMediaUrl (m_url m) \<and> m_url m \<noteq> []
      \<and> (startsWith (m_url m) ''http://'' \<or> startsWith (m_url m) ''https://'')
      \<and> \<not> startsWith (m_url m) ''data:'' \<and> length (m_url m) \<le> 2048)
   \<and> (startsWith u ''data:image/png;base64,'' \<longrightarrow> \<not> isValidMediaUrl u)"
proof -
  have "isValidMediaUrl (m_url m)"
    if "m \<in> set (detectHeroMedia doc) \<or> m \<in> set (detectHeroMediaInstagram doc)"
    using that detectHeroMedia_valid detectHeroMediaInstagram_valid by blast
  moreover have "\<not> isValidMediaUrl u" if "startsWith u ''data:image/png;base64,''"
  proof -
    from that obtain r where "u = ''data:image/png;base64,'' @ r"
      using startsWith_decompose by blast
    then show ?thesis by (simp add: isValidMediaUrl_def startsWith_def)
  qed
  ultimately show ?thesis using isValidMediaUrl_iff by blast
qed

lemma detect_heroImage2000:
  "detectHeroMedia (desktopPage [heroImage2000]) =
     [createMediaObject (desktopPage [heroImage2000]) 0 ''https://example.com/hero.jpg'' ''image''
        heroImage2000 (heroScore (desktopPage [heroImage2000]) heroImage2000)]"
proof -
  let ?d = "desktopPage [heroImage2000]"
  have i: "isImg heroImage2000" "\<not> isVideo heroImage2000"
    by (simp_all add: isImg_def isVideo_def heroImage2000_def toLowerCase_def lowerChar_def upperLetters_def lowerLetters_def)
  have els: "elements ?d = [heroImage2000]" and loc: "window_location ?d = examplePage"
    by (simp_all add: desktopPage_def)
  have v: "detectHeroVideo ?d = None"
    using i els by (simp add: detectHeroVideo_def getAllVideos_def)
  have sz: "calculateElementSize heroImage2000 =
      \<lparr>sz_width = 2000, sz_height = 1000, sz_area = fmul 2000 1000\<rparr>"
    using i by (simp add: calculateElementSize_def) (simp add: heroImage2000_def)
  have c: "\<not> shouldExcludeByClassName heroImage2000"
    by (simp add: shouldExcludeByClassName_def heroImage2000_def excludeClassNames_def
        toLowerCase_def lowerChar_def upperLetters_def lowerLetters_def startsWith_def)
  have vis: "isElementVisible heroImage2000"
    by (simp add: isElementVisible_def heroImage2000_def)
  have f: "filterElements [heroImage2000] = [heroImage2000]"
    using c vis by (simp add: filterElements_def sz isTooSmall_def isIcon_def minHeroSize_def
        iconThreshold_def)
  have u: "extractImageUrl examplePage heroImage2000 = Some ''https://example.com/hero.jpg''"
    by (simp add: extractImageUrl_def srcset_def heroImage2000_def makeAbsoluteUrl_def startsWith_def)
  have ok: "isValidMediaUrl ''https://example.com/hero.jpg''"
    by (simp add: isValidMediaUrl_def startsWith_def)
  have "detectHeroImage ?d =
      Some (createMediaObject ?d 0 ''https://example.com/hero.jpg'' ''image'' heroImage2000
        (heroScore ?d heroImage2000))"
    using i f u ok els loc
    by (simp add: detectHeroImage_def getAllImages_def scoreElements_def sortDesc_def Let_def)
  with v show ?thesis by (simp add: detectHeroMedia_def prioritizeVideos_def)
qed

theorem detected_media_urls_valid_witness:
  "m_url (hd (detectHeroMedia (desktopPage [heroImage2000]))) = ''https://example.com/hero.jpg''
   \<and> hd (detectHeroMedia (desktopPage [heroImage2000])) \<in> set (detectHeroMedia (desktopPage [heroImage2000]))
   \<and> isValidMediaUrl (m_url (hd (detectHeroMedia (desktopPage [heroImage2000]))))
   \<and> startsWith ''data:image/png;base64,iVBORw0KGgo='' ''data:image/png;base64,''
   \<and> \<not> isValidMediaUrl ''data:image/png;base64,iVBORw0KGgo=''"
proof -
  let ?d = "desktopPage [heroImage2000]"
  let ?m = "hd (detectHeroMedia ?d)"
  have mem: "?m \<in> set (detectHeroMedia ?d)" by (simp add: detect_heroImage2000)
  have d: "startsWith ''data:image/png;base64,iVBORw0KGgo='' ''data:image/png;base64,''"
    by (simp add: startsWith_def)
  have u: "m_url ?m = ''https://example.com/hero.jpg''"
    by (simp add: detect_heroImage2000 createMediaObject_def makeAbsoluteUrl_def startsWith_def)
  from detected_media_urls_valid [of ?m ?d "''data:image/png;base64,iVBORw0KGgo=''"] mem d
  have "isValidMediaUrl (m_url ?m)" "\<not> isValidMediaUrl ''data:image/png;base64,iVBORw0KGgo=''"
    by blast+
  with mem d u show ?thesis by (intro conjI)
qed

subsection \<open>Carousel extraction\<close>

lemma distinct_kinds:
  "distinct (map (Pair ''image'') (firstOccurrences xs) @ map (Pair ''video'') (firstOccurrences ys))"
  by (auto simp: distinct_map distinct_firstOccurrences inj_on_def)

text \<open>
  C3, as amended. A carousel yields the qualifying images with a srcset followed by
  the qualifying videos of the first article, each group in document order and without
  repeated URLs (the first occurrence stays), cut after \<open>maxCarouselItems\<close> items. So no
  two items agree in both type and URL, and there are at most as many items as distinct
  image URLs plus distinct video URLs. Without an article the result is empty.
\<close>

theorem carousel_images_then_videos:
  "(articles doc = [] \<longrightarrow> detectCarousel doc = [])
   \<and> (articles doc = article # others \<longrightarrow>
        map kindAndUrl (detectCarousel doc) =
          take maxCarouselItems
            (map (Pair ''image'') (firstOccurrences (imageUrls doc article))
             @ map (Pair ''video'') (firstOccurrences (videoUrls doc article)))
        \<and> distinct (map kindAndUrl (detectCarousel doc))
        \<and> length (detectCarousel doc) \<le> maxCarouselItems
        \<and> length (detectCarousel doc)
            \<le> card (set (imageUrls doc article)) + card (set (videoUrls doc article)))"
proof -
  have "map kindAndUrl (detectCarousel doc) =
          take maxCarouselItems
            (map (Pair ''image'') (firstOccurrences (imageUrls doc article))
             @ map (Pair ''video'') (firstOccurrences (videoUrls doc article)))
        \<and> distinct (map kindAndUrl (detectCarousel doc))
        \<and> length (detectCarousel doc) \<le> maxCarouselItems
        \<and> length (detectCarousel doc)
            \<le> card (set (imageUrls doc article)) + card (set (videoUrls doc article))"
    if a: "articles doc = article # others"
  proof -
    let ?all = "map (Pair ''image'') (firstOccurrences (imageUrls doc article))
             @ map (Pair ''video'') (firstOccurrences (videoUrls doc article))"
    have k: "map kindAndUrl (detectCarousel doc) = take maxCarouselItems ?all"
      by (rule detectCarousel_kinds [OF a])
    have d: "distinct (map kindAndUrl (detectCarousel doc))"
      unfolding k by (rule distinct_take) (rule distinct_kinds)
    have "length (detectCarousel doc) = length (take maxCarouselItems ?all)"
      using k by (metis length_map)
    then have l: "length (detectCarousel doc) \<le> maxCarouselItems"
      and c: "length (detectCarousel doc)
            \<le> card (set (imageUrls doc article)) + card (set (videoUrls doc article))"
      by (simp_all add: length_firstOccurrences)
    from k d l c show ?thesis by (intro conjI)
  qed
  then show ?thesis using detectCarousel_no_article by blast
qed

lemma srcsetImage_kind:
  "hasSrcset (srcsetImage s t)" "\<not> isVideo (srcsetImage s t)"
  "\<not> isProfilePicture (srcsetImage s t)" "\<not> isUIElement (srcsetImage s t)"
  by (simp_all add: hasSrcset_def isImg_def isVideo_def isProfilePicture_def isUIElement_def
      uiKeywords_def srcsetImage_def plainAncestor_def toLowerCase_def lowerChar_def upperLetters_def lowerLetters_def
      startsWith_def)

lemma videoElement_kind: "isVideo (videoElement t)" "\<not> hasSrcset (videoElement t)"
  by (simp_all add: hasSrcset_def isImg_def isVideo_def videoElement_def toLowerCase_def
      lowerChar_def upperLetters_def lowerLetters_def)

lemma instagramPost_fields:
  "articles (instagramPost a) = [a]"
  "window_location (instagramPost a) =
     \<lparr>href = ''https://www.instagram.com/p/ABC123/'', origin = ''https://www.instagram.com'',
      protocol = ''https:''\<rparr>"
  by (simp_all add: instagramPost_def)

lemma nextButton_kind: "\<not> hasSrcset nextButton" "\<not> isVideo nextButton"
  by (simp_all add: hasSrcset_def isImg_def isVideo_def nextButton_def toLowerCase_def
      lowerChar_def upperLetters_def lowerLetters_def)

lemma nextButton_is_indicator: "hasCarouselIndicators (instagramPost (nextButton # es))"
  by (simp add: hasCarouselIndicators_def instagramPost_def nextButton_def isButton_def
      toLowerCase_def lowerChar_def upperLetters_def lowerLetters_def startsWith_def)

lemma nextButton_post_type: "detectPostType (instagramPost (nextButton # es)) = Carousel"
  using nextButton_is_indicator [of es]
  by (simp add: detectPostType_def instagramPost_fields startsWith_def)

lemma cdn_valid:
  "isValidMediaUrl ''https://cdn.example.com/p/clip.mp4''"
  "isValidMediaUrl ''https://cdn.example.com/p/a.jpg''"
  "isValidMediaUrl ''https://cdn.example.com/p/b.jpg''"
  by (simp_all add: isValidMediaUrl_def startsWith_def)

lemma cdn_absolute:
  "makeAbsoluteUrl loc ''https://cdn.example.com/p/clip.mp4'' = ''https://cdn.example.com/p/clip.mp4''"
  "makeAbsoluteUrl loc ''https://cdn.example.com/p/a.jpg'' = ''https://cdn.example.com/p/a.jpg''"
  "makeAbsoluteUrl loc ''https://cdn.example.com/p/b.jpg'' = ''https://cdn.example.com/p/b.jpg''"
  by (simp_all add: makeAbsoluteUrl_def startsWith_def)

lemma cdn_srcset:
  "getHighestResolutionFromSrcset ''https://cdn.example.com/p/clip.mp4 1080w''
     = Some ''https://cdn.example.com/p/clip.mp4''"
  "getHighestResolutionFromSrcset ''https://cdn.example.com/p/a.jpg 1080w''
     = Some ''https://cdn.example.com/p/a.jpg''"
  "getHighestResolutionFromSrcset ''https://cdn.example.com/p/b.jpg 1080w''
     = Some ''https://cdn.example.com/p/b.jpg''"
  by (simp_all add: getHighestResolutionFromSrcset_def parseSrcset_def parseSource_def trim_def
      isSpace_def widthMatch_def isDigit_def parseInt10_def digitVal_def sortDesc_def)

lemma cdn_image_candidate:
  "imageCandidate (instagramPost a) (srcsetImage ''https://cdn.example.com/p/clip.mp4 1080w'' t)
     = Some ''https://cdn.example.com/p/clip.mp4''"
  "imageCandidate (instagramPost a) (srcsetImage ''https://cdn.example.com/p/a.jpg 1080w'' t)
     = Some ''https://cdn.example.com/p/a.jpg''"
  "imageCandidate (instagramPost a) (srcsetImage ''https://cdn.example.com/p/b.jpg 1080w'' t)
     = Some ''https://cdn.example.com/p/b.jpg''"
  by (simp_all add: imageCandidate_def srcsetImage_kind extractImageUrl_def cdn_srcset cdn_absolute
      cdn_valid) (simp_all add: srcset_def srcsetImage_def cdn_srcset cdn_absolute cdn_valid)

lemma cdn_video_candidate:
  "videoCandidate (instagramPost a) (videoElement ''https://cdn.example.com/p/clip.mp4'')
     = Some ''https://cdn.example.com/p/clip.mp4''"
  by (simp add: videoCandidate_def extractVideoUrl_def)
    (simp add: videoElement_def cdn_absolute cdn_valid)

text \<open>
  C3 as stated fails where an image and a video resolve to the same URL: the two loops
  keep separate sets of URLs, so both items are returned, and the image is returned
  before the video that precedes it in the document.
\<close>

theorem carousel_same_url_twice:
  "articles sameUrlPost =
     [[nextButton, videoElement ''https://cdn.example.com/p/clip.mp4'',
       srcsetImage ''https://cdn.example.com/p/clip.mp4 1080w'' ''https://cdn.example.com/p/clip.mp4'']]
   \<and> detectPostType sameUrlPost = Carousel
   \<and> detectHeroMediaInstagram sameUrlPost = detectCarousel sameUrlPost
   \<and> extractVideoUrl (window_location sameUrlPost) (videoElement ''https://cdn.example.com/p/clip.mp4'')
       = Some ''https://cdn.example.com/p/clip.mp4''
   \<and> extractImageUrl (window_location sameUrlPost)
         (srcsetImage ''https://cdn.example.com/p/clip.mp4 1080w'' ''https://cdn.example.com/p/clip.mp4'')
       = Some ''https://cdn.example.com/p/clip.mp4''
   \<and> map kindAndUrl (detectCarousel sameUrlPost)
       = [(''image'', ''https://cdn.example.com/p/clip.mp4''),
          (''video'', ''https://cdn.example.com/p/clip.mp4'')]
   \<and> length (detectCarousel sameUrlPost) = 2
   \<and> card {''https://cdn.example.com/p/clip.mp4''} = 1"
proof -
  let ?u = "''https://cdn.example.com/p/clip.mp4''"
  let ?v = "videoElement ?u"
  let ?i = "srcsetImage ''https://cdn.example.com/p/clip.mp4 1080w'' ?u"
  have a: "articles sameUrlPost = [[nextButton, ?v, ?i]]"
    by (simp add: sameUrlPost_def instagramPost_fields)
  have t: "detectPostType sameUrlPost = Carousel"
    by (simp add: sameUrlPost_def nextButton_post_type)
  have h: "detectHeroMediaInstagram sameUrlPost = detectCarousel sameUrlPost"
    by (simp add: detectHeroMediaInstagram_def t)
  have ev: "extractVideoUrl (window_location sameUrlPost) ?v = Some ?u"
    by (simp add: extractVideoUrl_def) (simp add: videoElement_def cdn_absolute)
  have ei: "extractImageUrl (window_location sameUrlPost) ?i = Some ?u"
    by (simp add: extractImageUrl_def) (simp add: srcset_def srcsetImage_def cdn_srcset cdn_absolute)
  have iu: "imageUrls sameUrlPost [nextButton, ?v, ?i] = [?u]"
    by (simp add: imageUrls_def sameUrlPost_def srcsetImage_kind videoElement_kind nextButton_kind
        map_filter_simps cdn_image_candidate)
  have vu: "videoUrls sameUrlPost [nextButton, ?v, ?i] = [?u]"
    by (simp add: videoUrls_def sameUrlPost_def srcsetImage_kind videoElement_kind nextButton_kind
        map_filter_simps cdn_video_candidate)
  have k: "map kindAndUrl (detectCarousel sameUrlPost) = [(''image'', ?u), (''video'', ?u)]"
    by (simp add: detectCarousel_kinds [OF a] iu vu maxCarouselItems_def)
  then have "length (map kindAndUrl (detectCarousel sameUrlPost)) = 2" by simp
  then have l: "length (detectCarousel sameUrlPost) = 2" by simp
  from a t h ev ei k l show ?thesis by simp
qed

theorem carousel_images_then_videos_witness:
  "articles mixedPost \<noteq> []
   \<and> detectPostType mixedPost = Carousel
   \<and> detectHeroMediaInstagram mixedPost = detectCarousel mixedPost
   \<and> map kindAndUrl (detectCarousel mixedPost)
       = [(''image'', ''https://cdn.example.com/p/a.jpg''),
          (''image'', ''https://cdn.example.com/p/b.jpg''),
          (''video'', ''https://cdn.example.com/p/clip.mp4'')]
   \<and> distinct (map kindAndUrl (detectCarousel mixedPost))
   \<and> length (detectCarousel mixedPost) \<le> 3"
proof -
  let ?a = "srcsetImage ''https://cdn.example.com/p/a.jpg 1080w'' ''https://cdn.example.com/p/a.jpg''"
  let ?b = "srcsetImage ''https://cdn.example.com/p/b.jpg 1080w'' ''https://cdn.example.com/p/b.jpg''"
  let ?v = "videoElement ''https://cdn.example.com/p/clip.mp4''"
  have a: "articles mixedPost = [nextButton, ?a, ?a, ?v, ?b] # []"
    by (simp add: mixedPost_def instagramPost_fields)
  have t: "detectPostType mixedPost = Carousel"
    by (simp add: mixedPost_def nextButton_post_type)
  have h: "detectHeroMediaInstagram mixedPost = detectCarousel mixedPost"
    by (simp add: detectHeroMediaInstagram_def t)
  have iu: "imageUrls mixedPost [nextButton, ?a, ?a, ?v, ?b] =
      [''https://cdn.example.com/p/a.jpg'', ''https://cdn.example.com/p/a.jpg'',
       ''https://cdn.example.com/p/b.jpg'']"
    by (simp add: imageUrls_def mixedPost_def srcsetImage_kind videoElement_kind nextButton_kind
        map_filter_simps cdn_image_candidate)
  have vu: "videoUrls mixedPost [nextButton, ?a, ?a, ?v, ?b] = [''https://cdn.example.com/p/clip.mp4'']"
    by (simp add: videoUrls_def mixedPost_def srcsetImage_kind videoElement_kind nextButton_kind
        map_filter_simps cdn_video_candidate)
  from carousel_images_then_videos [of mixedPost "[nextButton, ?a, ?a, ?v, ?b]" "[]"] a
  have k: "map kindAndUrl (detectCarousel mixedPost) =
          take maxCarouselItems
            (map (Pair ''image'') (firstOccurrences (imageUrls mixedPost [nextButton, ?a, ?a, ?v, ?b]))
             @ map (Pair ''video'') (firstOccurrences (videoUrls mixedPost [nextButton, ?a, ?a, ?v, ?b])))"
    and d: "distinct (map kindAndUrl (detectCarousel mixedPost))"
    and c: "length (detectCarousel mixedPost)
            \<le> card (set (imageUrls mixedPost [nextButton, ?a, ?a, ?v, ?b]))
              + card (set (videoUrls mixedPost [nextButton, ?a, ?a, ?v, ?b]))"
    by blast+
  have k': "map kindAndUrl (detectCarousel mixedPost)
       = [(''image'', ''https://cdn.example.com/p/a.jpg''),
          (''image'', ''https://cdn.example.com/p/b.jpg''),
          (''video'', ''https://cdn.example.com/p/clip.mp4'')]"
    unfolding k iu vu by (simp add: maxCarouselItems_def)
  then have "length (map kindAndUrl (detectCarousel mixedPost)) = 3" by simp
  then have "length (detectCarousel mixedPost) \<le> 3" by simp
  with a t h k' d show ?thesis by simp
qed

subsection \<open>Positions and file names of carousel items\<close>

lemma stem_extension:
  assumes "CHR ''.'' \<in> set f"
  shows "stem f @ extension f = f"
    and "lastIndexOf f CHR ''.'' = int (length (stem f))"
proof -
  let ?P = "\<lambda>c. c \<noteq> CHR ''.''"
  from assms have ne: "dropWhile ?P (rev f) \<noteq> []"
    by (simp add: dropWhile_eq_Nil_conv)
  then obtain c r where cr: "dropWhile ?P (rev f) = c # r"
    by (cases "dropWhile ?P (rev f)") auto
  from ne have "\<not> ?P (hd (dropWhile ?P (rev f)))" by (rule hd_dropWhile)
  with cr have d: "dropWhile ?P (rev f) = CHR ''.'' # r" by simp
  have "rev f = takeWhile ?P (rev f) @ dropWhile ?P (rev f)" by simp
  then have "rev f = takeWhile ?P (rev f) @ CHR ''.'' # r" using d by simp
  then have "rev (rev f) = rev (takeWhile ?P (rev f) @ CHR ''.'' # r)" by (rule arg_cong)
  then have "f = rev (takeWhile ?P (rev f) @ CHR ''.'' # r)" by (simp only: rev_rev_ident)
  then show "stem f @ extension f = f" by (simp add: stem_def extension_def d)
  show "lastIndexOf f CHR ''.'' = int (length (stem f))"
    by (simp add: lastIndexOf_def stem_def d)
qed

lemma addPosition_dotted:
  assumes "CHR ''.'' \<in> set f"
  shows "addPositionToFilename f p n =
     (if n = 1 then f else stem f @ ''_'' @ showNat p @ extension f)"
proof -
  have "take (length (stem f)) (stem f @ extension f) = stem f"
    "drop (length (stem f)) (stem f @ extension f) = extension f"
    by simp_all
  then have "take (length (stem f)) f = stem f" "drop (length (stem f)) f = extension f"
    by (simp_all only: stem_extension(1) [OF assms])
  then show ?thesis
    by (simp add: addPositionToFilename_def stem_extension(2) [OF assms] substring_def
        substringFrom_def Let_def)
qed

lemma includesStr_dot: "includesStr f ''.'' \<longleftrightarrow> CHR ''.'' \<in> set f"
  by (induction f) (auto simp: startsWith_def)

lemma extractFilename_dotted: "u \<noteq> [] \<Longrightarrow> CHR ''.'' \<in> set (extractFilenameFromUrl doc k u)"
  by (auto simp: extractFilenameFromUrl_def generateFilename_def Let_def includesStr_dot
      split: option.splits)

lemma createMediaObject_dotted:
  "isValidMediaUrl u \<Longrightarrow> CHR ''.'' \<in> set (m_filename (createMediaObject doc k u t e s))"
  by (simp add: createMediaObject_def extractFilename_dotted isValidMediaUrl_iff)

lemma collectImages_dotted:
  "\<forall>m \<in> set acc. CHR ''.'' \<in> set (m_filename m) \<Longrightarrow>
     \<forall>m \<in> set (fst (collectImages doc imgs (acc, seen))). CHR ''.'' \<in> set (m_filename m)"
proof (induction imgs arbitrary: acc seen)
  case Nil
  then show ?case by simp
next
  case (Cons img rest)
  show ?case
  proof (cases "imageCandidate doc img")
    case None
    with Cons show ?thesis by (simp add: collectImages_Cons del: collectImages.simps)
  next
    case (Some u)
    let ?acc = "acc @ [createMediaObject doc (length acc) u ''image'' img 0]"
    have "\<forall>m \<in> set ?acc. CHR ''.'' \<in> set (m_filename m)"
      using Cons.prems createMediaObject_dotted [OF imageCandidate_valid [OF Some]] by simp
    from Cons.IH [OF this] Cons.IH [OF Cons.prems] Some show ?thesis
      by (simp add: collectImages_Cons del: collectImages.simps)
  qed
qed

lemma collectVideos_dotted:
  "\<forall>m \<in> set acc. CHR ''.'' \<in> set (m_filename m) \<Longrightarrow>
     \<forall>m \<in> set (fst (collectVideos doc vids (acc, seen))). CHR ''.'' \<in> set (m_filename m)"
proof (induction vids arbitrary: acc seen)
  case Nil
  then show ?case by simp
next
  case (Cons video rest)
  show ?case
  proof (cases "videoCandidate doc video")
    case None
    with Cons show ?thesis by (simp add: collectVideos_Cons del: collectVideos.simps)
  next
    case (Some u)
    let ?acc = "acc @ [createMediaObject doc (length acc) u ''video'' video 0]"
    have "\<forall>m \<in> set ?acc. CHR ''.'' \<in> set (m_filename m)"
      using Cons.prems createMediaObject_dotted [OF videoCandidate_valid [OF Some]] by simp
    from Cons.IH [OF this] Cons.IH [OF Cons.prems] Some show ?thesis
      by (simp add: collectVideos_Cons del: collectVideos.simps)
  qed
qed

lemma limitedItems_dotted:
  assumes "m \<in> set (limitedItems doc)"
  shows "CHR ''.'' \<in> set (m_filename m)"
proof (cases "articles doc")
  case Nil
  with assms show ?thesis by (simp add: limitedItems_def)
next
  case (Cons article others)
  let ?imgs = "fst (collectImages doc (filter hasSrcset article) ([], {}))"
  have "\<forall>m \<in> set ?imgs. CHR ''.'' \<in> set (m_filename m)"
    by (rule collectImages_dotted) simp
  then have "\<forall>m \<in> set (fst (collectVideos doc (filter isVideo article) (?imgs, {}))).
      CHR ''.'' \<in> set (m_filename m)"
    by (rule collectVideos_dotted)
  moreover from assms Cons
  have "m \<in> set (fst (collectVideos doc (filter isVideo article) (?imgs, {})))"
    by (auto simp: limitedItems_def dest: in_set_takeD)
  ultimately show ?thesis by blast
qed

lemma numberItems_positions:
  "map m_position (numberItems xs) = map Some [1..<Suc (length xs)]"
proof (rule nth_equalityI)
  show "length (map m_position (numberItems xs)) = length (map Some [1..<Suc (length xs)])"
    by (simp add: numberItems_def del: upt_Suc)
next
  fix i assume "i < length (map m_position (numberItems xs))"
  then have i: "i < length xs" by (simp add: numberItems_def)
  then have "1 + i < Suc (length xs)" by simp
  then have "[1..<Suc (length xs)] ! i = 1 + i" by (rule nth_upt)
  with i show "map m_position (numberItems xs) ! i = map Some [1..<Suc (length xs)] ! i"
    by (simp add: numberItems_def nth_enumerate_eq del: upt_Suc)
qed

lemma numberItems_totals:
  "map m_totalItems (numberItems xs) = replicate (length xs) (Some (length xs))"
  by (rule nth_equalityI) (simp_all add: numberItems_def nth_enumerate_eq)

lemma numberItems_filename:
  "i < length xs \<Longrightarrow>
     m_filename (numberItems xs ! i) = addPositionToFilename (m_filename (xs ! i)) (i + 1) (length xs)"
  by (simp add: numberItems_def nth_enumerate_eq)

text \<open>
  C4, as amended. The items a carousel extraction returns carry the positions
  \<open>1, ..., N\<close> in extraction order and \<open>totalItems = N\<close>, for every \<open>N\<close>, also
  \<open>N = 1\<close>. The file name of every extracted item has an extension; for \<open>N \<noteq> 1\<close> the
  item at position \<open>p\<close> gets \<open>_p\<close> inserted before the extension, and for \<open>N = 1\<close> the
  file name stays as it is.
\<close>

theorem carousel_positions_and_filenames:
  "length (limitedItems doc) = length (detectCarousel doc)
   \<and> map m_position (detectCarousel doc) = map Some [1..<Suc (length (detectCarousel doc))]
   \<and> map m_totalItems (detectCarousel doc)
       = replicate (length (detectCarousel doc)) (Some (length (detectCarousel doc)))
   \<and> (\<forall>i < length (detectCarousel doc).
         CHR ''.'' \<in> set (m_filename (limitedItems doc ! i))
         \<and> m_filename (detectCarousel doc ! i) =
             (if length (detectCarousel doc) = 1 then m_filename (limitedItems doc ! i)
              else stem (m_filename (limitedItems doc ! i)) @ ''_'' @ showNat (i + 1)
                   @ extension (m_filename (limitedItems doc ! i))))"
proof -
  let ?xs = "limitedItems doc"
  have d: "detectCarousel doc = numberItems ?xs" by (rule detectCarousel_numberItems)
  have l: "length ?xs = length (detectCarousel doc)" by (simp add: d numberItems_length)
  have p: "map m_position (detectCarousel doc) = map Some [1..<Suc (length (detectCarousel doc))]"
    unfolding l [symmetric] unfolding d by (rule numberItems_positions)
  have t: "map m_totalItems (detectCarousel doc)
       = replicate (length (detectCarousel doc)) (Some (length (detectCarousel doc)))"
    unfolding l [symmetric] unfolding d by (rule numberItems_totals)
  have f: "CHR ''.'' \<in> set (m_filename (?xs ! i))
         \<and> m_filename (detectCarousel doc ! i) =
             (if length (detectCarousel doc) = 1 then m_filename (?xs ! i)
              else stem (m_filename (?xs ! i)) @ ''_'' @ showNat (i + 1)
                   @ extension (m_filename (?xs ! i)))"
    if "i < length (detectCarousel doc)" for i
  proof -
    from that l have i: "i < length ?xs" by simp
    then have "?xs ! i \<in> set ?xs" by (rule nth_mem)
    then have dot: "CHR ''.'' \<in> set (m_filename (?xs ! i))"
      by (rule limitedItems_dotted)
    have "m_filename (detectCarousel doc ! i)
        = addPositionToFilename (m_filename (?xs ! i)) (i + 1) (length ?xs)"
      unfolding d by (rule numberItems_filename [OF i])
    with dot l show ?thesis by (simp add: addPosition_dotted)
  qed
  from l p t f show ?thesis by blast
qed

lemma singlePost_is_carousel: "detectPostType singlePost = Carousel"
  by (simp add: detectPostType_def hasCarouselIndicators_def singlePost_def instagramPost_def
      nextButton_def isButton_def toLowerCase_def lowerChar_def upperLetters_def lowerLetters_def startsWith_def)

lemma singlePost_items:
  "map kindAndUrl (detectCarousel singlePost) = [(''image'', ''https://cdn.example.com/p/a.jpg'')]"
proof -
  let ?a = "srcsetImage ''https://cdn.example.com/p/a.jpg 1080w'' ''https://cdn.example.com/p/a.jpg''"
  note b = nextButton_kind
  have a: "articles singlePost = [nextButton, ?a] # []"
    by (simp add: singlePost_def instagramPost_fields)
  have iu: "imageUrls singlePost [nextButton, ?a] = [''https://cdn.example.com/p/a.jpg'']"
    by (simp add: imageUrls_def singlePost_def srcsetImage_kind b map_filter_simps
        cdn_image_candidate)
  have vu: "videoUrls singlePost [nextButton, ?a] = []"
    by (simp add: videoUrls_def srcsetImage_kind b map_filter_simps)
  show ?thesis
    by (simp add: detectCarousel_kinds [OF a] iu vu maxCarouselItems_def)
qed

text \<open>
  C4 as stated fails for a carousel post of which one item survives: the item is given
  \<open>position = 1\<close> and \<open>totalItems = 1\<close>.
\<close>

theorem carousel_single_item_numbered:
  "detectPostType singlePost = Carousel
   \<and> detectHeroMediaInstagram singlePost = detectCarousel singlePost
   \<and> length (detectCarousel singlePost) = 1
   \<and> map m_position (detectCarousel singlePost) = [Some 1]
   \<and> map m_totalItems (detectCarousel singlePost) = [Some 1]"
proof -
  have "length (map kindAndUrl (detectCarousel singlePost)) = 1"
    by (simp only: singlePost_items) simp
  then have l: "length (detectCarousel singlePost) = 1" by simp
  then have l': "length (limitedItems singlePost) = 1"
    by (simp add: detectCarousel_numberItems numberItems_length)
  have p: "map m_position (detectCarousel singlePost) = [Some 1]"
    using numberItems_positions [of "limitedItems singlePost"] l'
    by (simp add: detectCarousel_numberItems)
  have t: "map m_totalItems (detectCarousel singlePost) = [Some 1]"
    using numberItems_totals [of "limitedItems singlePost"] l'
    by (simp add: detectCarousel_numberItems)
  have h: "detectHeroMediaInstagram singlePost = detectCarousel singlePost"
    by (simp add: detectHeroMediaInstagram_def singlePost_is_carousel)
  from singlePost_is_carousel h l p t show ?thesis by (intro conjI)
qed

lemma cdn_filenames:
  "extractFilenameFromUrl (instagramPost a) k ''https://cdn.example.com/p/a.jpg'' = ''a.jpg''"
  "extractFilenameFromUrl (instagramPost a) k ''https://cdn.example.com/p/b.jpg'' = ''b.jpg''"
  "extractFilenameFromUrl (instagramPost a) k ''https://cdn.example.com/p/clip.mp4'' = ''clip.mp4''"
  by (simp_all add: extractFilenameFromUrl_def instagramPost_def examplePathname_def
      startsWith_def lastIndexOf_def substringFrom_def Let_def)

lemma mixedPost_limited:
  "map m_filename (limitedItems mixedPost) = [''a.jpg'', ''b.jpg'', ''clip.mp4'']"
proof -
  let ?a = "srcsetImage ''https://cdn.example.com/p/a.jpg 1080w'' ''https://cdn.example.com/p/a.jpg''"
  let ?b = "srcsetImage ''https://cdn.example.com/p/b.jpg 1080w'' ''https://cdn.example.com/p/b.jpg''"
  let ?v = "videoElement ''https://cdn.example.com/p/clip.mp4''"
  let ?d = "instagramPost [nextButton, ?a, ?a, ?v, ?b]"
  have i: "fst (collectImages ?d [?a, ?a, ?b] ([], {})) =
      [createMediaObject ?d 0 ''https://cdn.example.com/p/a.jpg'' ''image'' ?a 0,
       createMediaObject ?d (Suc 0) ''https://cdn.example.com/p/b.jpg'' ''image'' ?b 0]"
    by (simp add: collectImages_Cons cdn_image_candidate del: collectImages.simps) simp
  have "limitedItems ?d =
      [createMediaObject ?d 0 ''https://cdn.example.com/p/a.jpg'' ''image'' ?a 0,
       createMediaObject ?d (Suc 0) ''https://cdn.example.com/p/b.jpg'' ''image'' ?b 0,
       createMediaObject ?d (Suc (Suc 0)) ''https://cdn.example.com/p/clip.mp4'' ''video'' ?v 0]"
    by (simp add: limitedItems_def instagramPost_fields srcsetImage_kind videoElement_kind
        nextButton_kind i
        collectVideos_Cons cdn_video_candidate maxCarouselItems_def del: collectVideos.simps
        collectImages.simps) simp
  then show ?thesis
    by (simp add: mixedPost_def createMediaObject_def cdn_filenames)
qed

theorem carousel_positions_and_filenames_witness:
  "length (detectCarousel mixedPost) = 3
   \<and> map m_position (detectCarousel mixedPost) = [Some 1, Some 2, Some 3]
   \<and> map m_totalItems (detectCarousel mixedPost) = [Some 3, Some 3, Some 3]
   \<and> m_filename (detectCarousel mixedPost ! 0) = ''a_1.jpg''
   \<and> m_filename (detectCarousel mixedPost ! 1) = ''b_2.jpg''
   \<and> m_filename (detectCarousel mixedPost ! 2) = ''clip_3.mp4''"
proof -
  let ?xs = "limitedItems mixedPost"
  let ?ys = "detectCarousel mixedPost"
  have "length (map m_filename ?xs) = 3" by (simp only: mixedPost_limited) simp
  then have lx: "length ?xs = 3" by simp
  from lx obtain x0 x1 x2 where xs: "?xs = [x0, x1, x2]"
    by (auto simp: length_Suc_conv numeral_3_eq_3)
  have n: "m_filename (?xs ! 0) = ''a.jpg''" "m_filename (?xs ! 1) = ''b.jpg''"
    "m_filename (?xs ! 2) = ''clip.mp4''"
    using mixedPost_limited unfolding xs by simp_all
  note numbered = carousel_positions_and_filenames [of mixedPost]
  from numbered lx have ly: "length ?ys = 3" by simp
  from numbered ly have p: "map m_position ?ys = [Some 1, Some 2, Some 3]"
    by (simp add: upt_conv_Cons)
  from numbered ly have t: "map m_totalItems ?ys = [Some 3, Some 3, Some 3]"
    by (simp add: numeral_3_eq_3)
  from numbered ly have f: "\<forall>i < 3. m_filename (?ys ! i) =
      stem (m_filename (?xs ! i)) @ ''_'' @ showNat (i + 1) @ extension (m_filename (?xs ! i))"
    by simp
  have s: "showNat (Suc 0) = ''1''" "showNat (Suc (Suc 0)) = ''2''"
    "showNat 1 = ''1''" "showNat 2 = ''2''" "showNat 3 = ''3''"
    by (simp_all add: showNat.simps digitChar_def)
  have e: "stem ''a.jpg'' = ''a''" "extension ''a.jpg'' = ''.jpg''"
    "stem ''b.jpg'' = ''b''" "extension ''b.jpg'' = ''.jpg''"
    "stem ''clip.mp4'' = ''clip''" "extension ''clip.mp4'' = ''.mp4''"
    by (simp_all add: stem_def extension_def)
  from f have "m_filename (?ys ! 0) = ''a_1.jpg''" "m_filename (?ys ! 1) = ''b_2.jpg''"
    "m_filename (?ys ! 2) = ''clip_3.mp4''"
    using n s e by simp_all
  with ly p t show ?thesis by (intro conjI)
qed

end
